theory Spec2Isabelle
  imports Complex_Main "HOL-Library.Log_Nat" "HOL-Library.Sublist"
begin

section \<open>Postcard layout and compositing: a model of PostcardProcessor.py\<close>

text \<open>
  The development follows the class \<^verbatim>\<open>PostcardProcessor\<close>: the geometry
  (\<^verbatim>\<open>calculate_dimensions\<close>, \<^verbatim>\<open>should_rotate_for_a6\<close>), the metadata
  extraction (\<^verbatim>\<open>extract_exif_data\<close>, \<^verbatim>\<open>extract_gps_location\<close>), the caption
  (\<^verbatim>\<open>add_text_info\<close>), the composition of one file (\<^verbatim>\<open>create_postcard\<close>,
  \<^verbatim>\<open>read_raw_file\<close>) and the batch loop (\<^verbatim>\<open>process_folder\<close>).

  Python integers are \<open>int\<close>. Python floats are IEEE binary64 numbers: a finite float is
  modelled by its exact value, a rational, and every arithmetic operation rounds the exact
  result to the nearest representable value, ties to even. Exceptions are values of
  \<open>py_error\<close>, and a computation that may raise returns \<open>py_error + 'a\<close>.
  Calls into the imaging library (open, rotate, resize, fonts, text drawing, save) are
  parameters of the model, collected in the record \<open>env\<close>: each says whether the call
  raises. Printing and the file system are explicit state, the record \<open>world\<close>.
\<close>

subsection \<open>Binary64 rounding\<close>

text \<open>
  \<open>round_half_even\<close> rounds a rational to the nearest integer, ties to the even one.
  \<open>ilog2 x\<close> is the binary exponent \<open>\<lfloor>log\<^sub>2 x\<rfloor>\<close> of a positive rational, computed from
  the bit lengths of numerator and denominator. \<open>ulp a\<close> is the spacing of binary64
  numbers around \<open>a\<close>: 53 significant bits, and the fixed spacing \<^verbatim>\<open>2^-1074\<close> below the
  smallest normal number \<^verbatim>\<open>2^-1022\<close>. \<open>rnd x\<close> is the binary64 number nearest to
  \<open>x\<close> (exponent unbounded above; the operations below check the upper range where
  Python does).
\<close>

definition round_half_even :: "rat \<Rightarrow> int" where
  "round_half_even y = (let n = \<lfloor>y\<rfloor>; r = y - of_int n in
      if r < 1/2 then n else if 1/2 < r then n + 1 else if even n then n else n + 1)"

definition ilog2 :: "rat \<Rightarrow> int" where
  "ilog2 x = (case quotient_of x of (p, q) \<Rightarrow>
      let d = bitlen p - bitlen q in if 2 powi d \<le> x then d else d - 1)"

definition ulp :: "rat \<Rightarrow> rat" where
  "ulp a = 2 powi (max (ilog2 a) (- 1022) - 52)"

definition rnd :: "rat \<Rightarrow> rat" where
  "rnd x = (if x = 0 then 0 else
     sgn x * of_int (round_half_even (\<bar>x\<bar> / ulp \<bar>x\<bar>)) * ulp \<bar>x\<bar>)"

text \<open>The unit roundoff of binary64.\<close>

definition eps :: rat where
  "eps = 2 powi (- 53)"

subsection \<open>Python arithmetic with its exceptions\<close>

text \<open>
  \<open>NameError\<close> is raised by a reference to an unbound name; \<open>LibraryError\<close> stands for
  any exception raised inside the imaging library.
\<close>

datatype py_error = ZeroDivisionError | OverflowError | NameError | LibraryError

definition bind_err :: "py_error + 'a \<Rightarrow> ('a \<Rightarrow> py_error + 'b) \<Rightarrow> py_error + 'b" where
  "bind_err r f = (case r of Inl e \<Rightarrow> Inl e | Inr v \<Rightarrow> f v)"

text \<open>
  Converting an \<open>int\<close> to a float rounds to nearest-even and raises OverflowError when the
  result is out of the binary64 range. \<open>int / int\<close> is Python's true division: the
  exact quotient, correctly rounded. In \<open>int - float\<close>, \<open>int * float\<close> and
  \<open>float / int\<close> the integer operand is converted first. No product, difference or
  quotient of this program exceeds the binary64 range (the lemmas \<open>no_overflow\<close> and
  \<open>int_to_float_bounds\<close> below bound them), so only the conversions check it.
  \<open>py_int\<close> is \<^verbatim>\<open>int(x)\<close> on a float: truncation towards zero.
\<close>

definition int_to_float :: "int \<Rightarrow> py_error + rat" where
  "int_to_float n = (let r = rnd (of_int n) in
     if 2 powi 1024 \<le> \<bar>r\<bar> then Inl OverflowError else Inr r)"

definition int_truediv :: "int \<Rightarrow> int \<Rightarrow> py_error + rat" where
  "int_truediv a b = (if b = 0 then Inl ZeroDivisionError else
     let r = rnd (of_int a / of_int b) in
     if 2 powi 1024 \<le> \<bar>r\<bar> then Inl OverflowError else Inr r)"

definition int_sub_float :: "int \<Rightarrow> rat \<Rightarrow> py_error + rat" where
  "int_sub_float n x = bind_err (int_to_float n) (\<lambda>nf. Inr (rnd (nf - x)))"

definition int_mul_float :: "int \<Rightarrow> rat \<Rightarrow> py_error + rat" where
  "int_mul_float n x = bind_err (int_to_float n) (\<lambda>nf. Inr (rnd (nf * x)))"

definition float_div_int :: "rat \<Rightarrow> int \<Rightarrow> py_error + rat" where
  "float_div_int x n = bind_err (int_to_float n) (\<lambda>nf.
     if nf = 0 then Inl ZeroDivisionError else Inr (rnd (x / nf)))"

definition py_int :: "rat \<Rightarrow> int" where
  "py_int x = (if 0 \<le> x then \<lfloor>x\<rfloor> else \<lceil>x\<rceil>)"

subsection \<open>The constants set in \<^verbatim>\<open>__init__\<close>\<close>

text \<open>The float literal \<^verbatim>\<open>0.18\<close> is the binary64 number nearest to 18/100.\<close>

type_synonym color = "nat \<times> nat \<times> nat"

definition A6_WIDTH :: int where "A6_WIDTH = 1240"
definition A6_HEIGHT :: int where "A6_HEIGHT = 1748"
definition WHITE_BAR_COLOR :: color where "WHITE_BAR_COLOR = (248, 246, 240)"
definition TEXT_COLOR :: color where "TEXT_COLOR = (90, 90, 90)"
definition WHITE_BAR_RATIO :: rat where "WHITE_BAR_RATIO = rnd (18 / 100)"

subsection \<open>\<^verbatim>\<open>calculate_dimensions\<close> and \<^verbatim>\<open>should_rotate_for_a6\<close>\<close>

definition calculate_dimensions :: "int \<Rightarrow> int \<Rightarrow> py_error + (int \<times> int)" where
  "calculate_dimensions original_width original_height =
     bind_err (int_sub_float 1 WHITE_BAR_RATIO) (\<lambda>r.
     bind_err (int_mul_float A6_HEIGHT r) (\<lambda>ah.
     let available_height = py_int ah; available_width = A6_WIDTH in
     bind_err (int_truediv available_width original_width) (\<lambda>width_ratio.
     bind_err (int_truediv available_height original_height) (\<lambda>height_ratio.
     let scale_ratio = min width_ratio height_ratio in
     bind_err (int_mul_float original_width scale_ratio) (\<lambda>nw.
     bind_err (int_mul_float original_height scale_ratio) (\<lambda>nh.
     Inr (py_int nw, py_int nh)))))))"

text \<open>
  The two fit factors of \<^verbatim>\<open>should_rotate_for_a6\<close>: \<open>horizontal_ratio\<close> for the image
  as it is, \<open>vertical_ratio\<close> for the image turned by 90 degrees. The arguments of
  \<^verbatim>\<open>min\<close> are evaluated from left to right.
\<close>

definition horizontal_ratio :: "int \<Rightarrow> int \<Rightarrow> py_error + rat" where
  "horizontal_ratio width height =
     bind_err (int_truediv A6_WIDTH width) (\<lambda>a.
     bind_err (int_mul_float A6_HEIGHT (rnd (82 / 100))) (\<lambda>t.
     bind_err (float_div_int t height) (\<lambda>b. Inr (min a b))))"

definition vertical_ratio :: "int \<Rightarrow> int \<Rightarrow> py_error + rat" where
  "vertical_ratio width height =
     bind_err (int_truediv A6_WIDTH height) (\<lambda>a.
     bind_err (int_mul_float A6_HEIGHT (rnd (82 / 100))) (\<lambda>t.
     bind_err (float_div_int t width) (\<lambda>b. Inr (min a b))))"

definition should_rotate_for_a6 :: "int \<Rightarrow> int \<Rightarrow> py_error + bool" where
  "should_rotate_for_a6 width height =
     (if width > height then
        bind_err (horizontal_ratio width height) (\<lambda>hr.
        bind_err (vertical_ratio width height) (\<lambda>vr.
        Inr (vr > rnd (hr * rnd (11 / 10)))))
      else Inr False)"

text \<open>The placement of the resized image on the canvas in \<^verbatim>\<open>create_postcard\<close>.\<close>

definition x_offset_of :: "int \<Rightarrow> int" where
  "x_offset_of new_width = (A6_WIDTH - new_width) div 2"

definition y_offset :: int where
  "y_offset = 0"

subsection \<open>Metadata values and the date format\<close>

text \<open>
  A value of the tag table is a string, a byte string, a number or a nested table or
  tuple (given by its number of entries). Strings are lists of code points below 256.
  \<open>truthy\<close> is Python's truth value of such a value.
\<close>

datatype exif_value = Str string | Bytes string | Num int | Table nat

fun truthy :: "exif_value \<Rightarrow> bool" where
  "truthy (Str s) = (s \<noteq> [])"
| "truthy (Bytes b) = (b \<noteq> [])"
| "truthy (Num n) = (n \<noteq> 0)"
| "truthy (Table n) = (n \<noteq> 0)"

type_synonym exif_dict = "(int \<times> exif_value) list"

record datetime =
  year :: nat
  month :: nat
  day :: nat
  hour :: nat
  minute :: nat
  second :: nat

text \<open>
  \<^verbatim>\<open>datetime.strptime(value, '%Y:%m:%d %H:%M:%S')\<close> matches the regular expression
  that the standard library builds from the format,
  \<^verbatim>\<open>(\d\d\d\d):(1[0-2]|0[1-9]|[1-9]):(3[0-1]|[1-2]\d|0[1-9]|[1-9]| [1-9])\s+\<close>
  \<^verbatim>\<open>(2[0-3]|[0-1]\d|\d):([0-5]\d|\d):(6[0-1]|[0-5]\d|\d)\<close>,
  at the start of the string, takes the first match in the order of backtracking,
  requires that it ends where the string ends, and builds a \<^verbatim>\<open>datetime\<close>, which
  checks the calendar. Each piece of the expression returns the list of its possible
  matches in that order: the value read and the rest of the input.
\<close>

definition digit_in :: "char \<Rightarrow> nat \<Rightarrow> nat \<Rightarrow> bool" where
  "digit_in c lo hi = (48 + lo \<le> (of_char c :: nat) \<and> (of_char c :: nat) \<le> 48 + hi)"

definition digit_val :: "char \<Rightarrow> nat" where
  "digit_val c = of_char c - 48"

definition is_space :: "char \<Rightarrow> bool" where
  "is_space c = ((of_char c :: nat) \<in> {9, 10, 11, 12, 13, 28, 29, 30, 31, 32, 133, 160})"

fun two_digits :: "nat \<Rightarrow> nat \<Rightarrow> nat \<Rightarrow> nat \<Rightarrow> string \<Rightarrow> (nat \<times> string) list" where
  "two_digits lo1 hi1 lo2 hi2 (a # b # rest) =
     (if digit_in a lo1 hi1 \<and> digit_in b lo2 hi2 then [(10 * digit_val a + digit_val b, rest)] else [])"
| "two_digits lo1 hi1 lo2 hi2 _ = []"

fun one_digit :: "nat \<Rightarrow> nat \<Rightarrow> string \<Rightarrow> (nat \<times> string) list" where
  "one_digit lo hi (a # rest) = (if digit_in a lo hi then [(digit_val a, rest)] else [])"
| "one_digit lo hi [] = []"

fun space_digit :: "nat \<Rightarrow> nat \<Rightarrow> string \<Rightarrow> (nat \<times> string) list" where
  "space_digit lo hi (a # b # rest) =
     (if a = CHR '' '' \<and> digit_in b lo hi then [(digit_val b, rest)] else [])"
| "space_digit lo hi _ = []"

fun literal :: "char \<Rightarrow> string \<Rightarrow> string list" where
  "literal c (a # rest) = (if a = c then [rest] else [])"
| "literal c [] = []"

fun re_Y :: "string \<Rightarrow> (nat \<times> string) list" where
  "re_Y (a # b # c # d # rest) =
     (if digit_in a 0 9 \<and> digit_in b 0 9 \<and> digit_in c 0 9 \<and> digit_in d 0 9
      then [(1000 * digit_val a + 100 * digit_val b + 10 * digit_val c + digit_val d, rest)] else [])"
| "re_Y _ = []"

definition re_m :: "string \<Rightarrow> (nat \<times> string) list" where
  "re_m s = two_digits 1 1 0 2 s @ two_digits 0 0 1 9 s @ one_digit 1 9 s"

definition re_d :: "string \<Rightarrow> (nat \<times> string) list" where
  "re_d s = two_digits 3 3 0 1 s @ two_digits 1 2 0 9 s @ two_digits 0 0 1 9 s
            @ one_digit 1 9 s @ space_digit 1 9 s"

definition re_H :: "string \<Rightarrow> (nat \<times> string) list" where
  "re_H s = two_digits 2 2 0 3 s @ two_digits 0 1 0 9 s @ one_digit 0 9 s"

definition re_M :: "string \<Rightarrow> (nat \<times> string) list" where
  "re_M s = two_digits 0 5 0 9 s @ one_digit 0 9 s"

definition re_S :: "string \<Rightarrow> (nat \<times> string) list" where
  "re_S s = two_digits 6 6 0 1 s @ two_digits 0 5 0 9 s @ one_digit 0 9 s"

text \<open>\<^verbatim>\<open>\s+\<close> is greedy: the longest run of white space is tried first.\<close>

fun spaces_plus :: "string \<Rightarrow> string list" where
  "spaces_plus [] = []"
| "spaces_plus (a # rest) = (if is_space a then spaces_plus rest @ [rest] else [])"

definition regex_match :: "string \<Rightarrow> (datetime \<times> string) list" where
  "regex_match s =
     [(\<lparr>year = Y, month = m, day = d, hour = H, minute = M, second = S\<rparr>, r11).
        (Y, r1) \<leftarrow> re_Y s, r2 \<leftarrow> literal CHR '':'' r1,
        (m, r3) \<leftarrow> re_m r2, r4 \<leftarrow> literal CHR '':'' r3,
        (d, r5) \<leftarrow> re_d r4, r6 \<leftarrow> spaces_plus r5,
        (H, r7) \<leftarrow> re_H r6, r8 \<leftarrow> literal CHR '':'' r7,
        (M, r9) \<leftarrow> re_M r8, r10 \<leftarrow> literal CHR '':'' r9,
        (S, r11) \<leftarrow> re_S r10]"

definition is_leap :: "nat \<Rightarrow> bool" where
  "is_leap y = (y mod 4 = 0 \<and> (y mod 100 \<noteq> 0 \<or> y mod 400 = 0))"

definition days_in_month :: "nat \<Rightarrow> nat \<Rightarrow> nat" where
  "days_in_month y m = (if m = 2 then (if is_leap y then 29 else 28)
     else if m \<in> {4, 6, 9, 11} then 30 else 31)"

definition valid_datetime :: "datetime \<Rightarrow> bool" where
  "valid_datetime dt = (1 \<le> year dt \<and> year dt \<le> 9999 \<and> 1 \<le> month dt \<and> month dt \<le> 12
     \<and> 1 \<le> day dt \<and> day dt \<le> days_in_month (year dt) (month dt)
     \<and> hour dt \<le> 23 \<and> minute dt \<le> 59 \<and> second dt \<le> 59)"

text \<open>\<open>None\<close> stands for the ValueError that \<^verbatim>\<open>strptime\<close> raises.\<close>

definition strptime :: "string \<Rightarrow> datetime option" where
  "strptime s = (case regex_match s of
       [] \<Rightarrow> None
     | (dt, rest) # _ \<Rightarrow> if rest = [] \<and> valid_datetime dt then Some dt else None)"

text \<open>
  \<^verbatim>\<open>strftime('%b %d, %Y')\<close> in the C locale, which the program never changes: the
  English month abbreviation, the day in two digits, the year in four digits.
\<close>

definition month_abbr :: "nat \<Rightarrow> string" where
  "month_abbr m = [''Jan'', ''Feb'', ''Mar'', ''Apr'', ''May'', ''Jun'',
                   ''Jul'', ''Aug'', ''Sep'', ''Oct'', ''Nov'', ''Dec''] ! (m - 1)"

definition digit_char :: "nat \<Rightarrow> char" where
  "digit_char n = ''0123456789'' ! (n mod 10)"

definition pad2 :: "nat \<Rightarrow> string" where
  "pad2 n = [digit_char (n div 10), digit_char n]"

definition pad4 :: "nat \<Rightarrow> string" where
  "pad4 n = [digit_char (n div 1000), digit_char (n div 100), digit_char (n div 10), digit_char n]"

definition strftime :: "datetime \<Rightarrow> string" where
  "strftime dt = month_abbr (month dt) @ '' '' @ pad2 (day dt) @ '', '' @ pad4 (year dt)"


subsection \<open>Images, canvas, files and the imaging library\<close>

text \<open>
  An image carries its size, the outcome of \<^verbatim>\<open>_getexif()\<close> on it (an exception,
  \<^verbatim>\<open>None\<close>, or the tag table as the list of its items in iteration order) and a
  symbolic description of its pixels. A canvas is the list of drawing operations
  applied to it, in order.
\<close>

datatype pixels = Decoded string | Rotated90 pixels | Resized pixels "int \<times> int"

record image =
  img_size :: "int \<times> int"
  img_getexif :: "py_error + exif_dict option"
  img_pixels :: pixels

datatype font = TrueType string nat | DefaultFont

datatype draw_op =
    Paste image "int \<times> int"
  | Rectangle "int \<times> int \<times> int \<times> int" color
  | Text "int \<times> int" exif_value color font

record canvas =
  canvas_size :: "int \<times> int"
  canvas_fill :: color
  canvas_ops :: "draw_op list"

datatype file_content = Jpeg canvas nat "nat \<times> nat" | OtherFile nat

datatype message =
    RawReadFailed string py_error
  | CannotRead string
  | RotatedNotice
  | Done string
  | ProcessFailed string py_error
  | TextFailed py_error
  | Processing string
  | Summary nat

record world =
  files :: "string \<Rightarrow> file_content option"
  printed :: "message list"

text \<open>
  The library calls. \<open>image_open\<close> is \<^verbatim>\<open>Image.open\<close>; the fields ending in
  \<open>_err\<close> give the exception a call raises, if any; a failing \<^verbatim>\<open>save\<close> also says
  what it leaves at the output path. \<open>TAGS\<close> is the table \<^verbatim>\<open>PIL.ExifTags.TAGS\<close>;
  \<open>path_join\<close>, \<open>splitext_root\<close>, \<open>path_exists\<close>, \<open>makedirs_err\<close> and \<open>listdir\<close>
  are the functions of \<^verbatim>\<open>os\<close> and \<^verbatim>\<open>os.path\<close> that \<^verbatim>\<open>process_folder\<close> calls.
\<close>

record env =
  image_open :: "string \<Rightarrow> py_error + image"
  rotate_err :: "image \<Rightarrow> py_error option"
  resize_err :: "image \<Rightarrow> int \<times> int \<Rightarrow> py_error option"
  truetype_err :: "string \<Rightarrow> py_error option"
  load_default_err :: "py_error option"
  text_err :: "canvas \<Rightarrow> int \<times> int \<Rightarrow> exif_value \<Rightarrow> font \<Rightarrow> py_error option"
  save_err :: "canvas \<Rightarrow> string \<Rightarrow> (py_error \<times> file_content option) option"
  TAGS :: "int \<Rightarrow> string option"
  path_join :: "string \<Rightarrow> string \<Rightarrow> string"
  splitext_root :: "string \<Rightarrow> string"
  path_exists :: "string \<Rightarrow> bool"
  makedirs_err :: "string \<Rightarrow> py_error option"
  listdir :: "string \<Rightarrow> py_error + string list"

definition print_msg :: "message \<Rightarrow> world \<Rightarrow> world" where
  "print_msg m w = w\<lparr>printed := printed w @ [m]\<rparr>"

text \<open>\<^verbatim>\<open>str.lower\<close> and \<^verbatim>\<open>str.endswith\<close> with a tuple of suffixes.\<close>

definition lower_char :: "char \<Rightarrow> char" where
  "lower_char c = (let n = (of_char c :: nat) in
     if (65 \<le> n \<and> n \<le> 90) \<or> (192 \<le> n \<and> n \<le> 222 \<and> n \<noteq> 215) then char_of (n + 32) else c)"

definition lower :: "string \<Rightarrow> string" where
  "lower s = map lower_char s"

definition endswith :: "string \<Rightarrow> string list \<Rightarrow> bool" where
  "endswith s sufs = list_ex (\<lambda>suf. suffix suf s) sufs"

definition is_raw :: "string \<Rightarrow> bool" where
  "is_raw image_path = endswith (lower image_path) [''.nef'', ''.raw'']"

subsection \<open>\<^verbatim>\<open>read_raw_file\<close>, \<^verbatim>\<open>extract_gps_location\<close>, \<^verbatim>\<open>extract_exif_data\<close>\<close>

text \<open>
  The body of \<^verbatim>\<open>read_raw_file\<close> starts with \<^verbatim>\<open>rawpy.imread(file_path)\<close>, and the
  module never binds the name \<^verbatim>\<open>rawpy\<close>: evaluating it raises NameError inside the
  \<^verbatim>\<open>try\<close>, the handler prints and returns \<^verbatim>\<open>None\<close>.
\<close>

definition read_raw_file :: "string \<Rightarrow> world \<Rightarrow> image option \<times> world" where
  "read_raw_file file_path w = (None, print_msg (RawReadFailed file_path NameError) w)"

text \<open>
  The placeholder that \<^verbatim>\<open>extract_gps_location\<close> returns is a string of four CJK
  characters, written here as the bytes of its UTF-8 encoding; the program only uses
  that it is not empty, and draws it.
\<close>

definition gps_placeholder :: string where
  "gps_placeholder = map char_of [230, 139, 141, 230, 145, 132, 229, 156, 176, 231, 130, 185 :: nat]"

definition extract_gps_location :: "exif_value \<Rightarrow> exif_value option" where
  "extract_gps_location gps_info = (if truthy gps_info then Some (Str gps_placeholder) else None)"

text \<open>
  The body of the branch for DateTimeOriginal: \<^verbatim>\<open>strptime\<close> raises TypeError on a value
  that is not a string and ValueError on a string that does not parse; the bare
  \<^verbatim>\<open>except\<close> then keeps the value as it is.
\<close>

definition format_datetime :: "exif_value \<Rightarrow> exif_value" where
  "format_datetime v = (case v of
       Str s \<Rightarrow> (case strptime s of Some datetime_obj \<Rightarrow> Str (strftime datetime_obj) | None \<Rightarrow> v)
     | _ \<Rightarrow> v)"

text \<open>The loop over \<^verbatim>\<open>exif_dict.items()\<close>, with \<^verbatim>\<open>TAGS.get(tag, tag)\<close>.\<close>

fun scan_tags :: "(int \<Rightarrow> string option) \<Rightarrow> exif_dict \<Rightarrow> exif_value option \<times> exif_value option
    \<Rightarrow> exif_value option \<times> exif_value option" where
  "scan_tags tags [] (datetime_str, location_str) = (datetime_str, location_str)"
| "scan_tags tags ((tag, v) # rest) (datetime_str, location_str) =
     (if tags tag = Some ''DateTimeOriginal''
        then scan_tags tags rest (Some (format_datetime v), location_str)
      else if tags tag = Some ''GPSInfo''
        then scan_tags tags rest (datetime_str, extract_gps_location v)
      else scan_tags tags rest (datetime_str, location_str))"

text \<open>
  \<^verbatim>\<open>extract_exif_data\<close>: the first \<^verbatim>\<open>try\<close> opens the file and reads its tag table;
  on any exception the handler returns \<^verbatim>\<open>(None, None)\<close>, after trying
  \<^verbatim>\<open>read_raw_file\<close> for a raw file. The call of \<^verbatim>\<open>_getexif\<close> in the handler is not
  protected. An absent or empty table gives \<^verbatim>\<open>(None, None)\<close>.
\<close>

definition extract_exif_data :: "env \<Rightarrow> string \<Rightarrow> world
    \<Rightarrow> (py_error + exif_value option \<times> exif_value option) \<times> world" where
  "extract_exif_data env image_path w =
     (case (case bind_err (image_open env image_path) img_getexif of
              Inr exif_dict \<Rightarrow> (Inr (Some exif_dict), w)
            | Inl _ \<Rightarrow>
                if is_raw image_path then
                  (case read_raw_file image_path w of
                     (Some img, w1) \<Rightarrow> (map_sum id Some (img_getexif img), w1)
                   | (None, w1) \<Rightarrow> (Inr None, w1))
                else (Inr None, w))
      of
        (Inl e, w1) \<Rightarrow> (Inl e, w1)
      | (Inr None, w1) \<Rightarrow> (Inr (None, None), w1)
      | (Inr (Some exif_dict), w1) \<Rightarrow>
          (case exif_dict of
             None \<Rightarrow> (Inr (None, None), w1)
           | Some items \<Rightarrow>
               if items = [] then (Inr (None, None), w1)
               else (Inr (scan_tags (TAGS env) items (None, None)), w1)))"

subsection \<open>\<^verbatim>\<open>add_text_info\<close>\<close>

text \<open>
  The two caption lines: a value that is \<^verbatim>\<open>None\<close> or false in Python's sense is
  replaced by the fixed text.
\<close>

definition caption_lines :: "exif_value option \<Rightarrow> exif_value option \<Rightarrow> exif_value \<times> exif_value" where
  "caption_lines datetime_str location_str =
     ((case datetime_str of Some v \<Rightarrow> if truthy v then v else Str ''2024.01.01'' | None \<Rightarrow> Str ''2024.01.01''),
      (case location_str of Some v \<Rightarrow> if truthy v then v else Str ''SHENZHEN'' | None \<Rightarrow> Str ''SHENZHEN''))"

text \<open>
  The chain of fonts: three scalable fonts in turn, then the built-in one, whose
  failure is not caught here.
\<close>

definition load_font :: "env \<Rightarrow> py_error + font" where
  "load_font env =
     (case truetype_err env ''arial.ttf'' of
        None \<Rightarrow> Inr (TrueType ''arial.ttf'' 32)
      | Some _ \<Rightarrow>
     (case truetype_err env ''/System/Library/Fonts/Arial.ttf'' of
        None \<Rightarrow> Inr (TrueType ''/System/Library/Fonts/Arial.ttf'' 32)
      | Some _ \<Rightarrow>
     (case truetype_err env ''/usr/share/fonts/truetype/dejavu/DejaVuSans.ttf'' of
        None \<Rightarrow> Inr (TrueType ''/usr/share/fonts/truetype/dejavu/DejaVuSans.ttf'' 32)
      | Some _ \<Rightarrow>
     (case load_default_err env of None \<Rightarrow> Inr DefaultFont | Some e \<Rightarrow> Inl e))))"

definition draw_text :: "canvas \<Rightarrow> int \<times> int \<Rightarrow> exif_value \<Rightarrow> font \<Rightarrow> canvas" where
  "draw_text c pos txt fnt = c\<lparr>canvas_ops := canvas_ops c @ [Text pos txt TEXT_COLOR fnt]\<rparr>"

text \<open>
  \<^verbatim>\<open>add_text_info\<close> draws on the canvas in place and catches every exception of its
  body: the result is the canvas as the body left it and what was printed.
\<close>

definition add_text_info :: "env \<Rightarrow> canvas \<Rightarrow> int \<Rightarrow> int \<Rightarrow> exif_value option \<Rightarrow> exif_value option
    \<Rightarrow> canvas \<times> message list" where
  "add_text_info env draw white_bar_y white_bar_height datetime_str location_str =
     (case load_font env of
        Inl e \<Rightarrow> (draw, [TextFailed e])
      | Inr fnt \<Rightarrow>
          (case caption_lines datetime_str location_str of (line1, line2) \<Rightarrow>
           let margin = 40;
               line_spacing = white_bar_height div 4;
               text_y1 = white_bar_y + line_spacing
           in (case text_err env draw (margin, text_y1) line1 fnt of
                 Some e \<Rightarrow> (draw, [TextFailed e])
               | None \<Rightarrow>
                   let draw1 = draw_text draw (margin, text_y1) line1 fnt;
                       text_y2 = text_y1 + line_spacing
                   in (case text_err env draw1 (margin, text_y2) line2 fnt of
                         Some e \<Rightarrow> (draw1, [TextFailed e])
                       | None \<Rightarrow> (draw_text draw1 (margin, text_y2) line2 fnt, [])))))"

subsection \<open>\<^verbatim>\<open>create_postcard\<close> and \<^verbatim>\<open>process_folder\<close>\<close>

text \<open>The handler of \<^verbatim>\<open>create_postcard\<close>: print the failure, return \<^verbatim>\<open>False\<close>.\<close>

definition failed :: "string \<Rightarrow> py_error \<Rightarrow> world \<Rightarrow> bool \<times> world" where
  "failed image_path e w = (False, print_msg (ProcessFailed image_path e) w)"

text \<open>
  What \<^verbatim>\<open>image.rotate(90, expand=True)\<close> and \<^verbatim>\<open>image.resize\<close> return when they
  do not raise.
\<close>

definition rotate90 :: "image \<Rightarrow> image" where
  "rotate90 img = img\<lparr>img_size := (snd (img_size img), fst (img_size img)),
                       img_pixels := Rotated90 (img_pixels img)\<rparr>"

definition resize :: "image \<Rightarrow> int \<times> int \<Rightarrow> image" where
  "resize img sz = img\<lparr>img_size := sz, img_pixels := Resized (img_pixels img) sz\<rparr>"

text \<open>
  \<^verbatim>\<open>create_postcard\<close>, statement by statement. Every exception of the body reaches
  the handler \<open>failed\<close>; the only write to the file system is \<^verbatim>\<open>canvas.save\<close>.
  Creating the canvas, pasting and drawing the rectangle take only values computed
  here and are taken to succeed.
\<close>

definition create_postcard :: "env \<Rightarrow> string \<Rightarrow> string \<Rightarrow> world \<Rightarrow> bool \<times> world" where
  "create_postcard env image_path output_path w =
     (case (if is_raw image_path
            then (case read_raw_file image_path w of (img, w1) \<Rightarrow> (Inr img, w1))
            else (map_sum id Some (image_open env image_path), w)) of
        (Inl e, w1) \<Rightarrow> failed image_path e w1
      | (Inr None, w1) \<Rightarrow> (False, print_msg (CannotRead image_path) w1)
      | (Inr (Some img), w1) \<Rightarrow>
     (case extract_exif_data env image_path w1 of
        (Inl e, w2) \<Rightarrow> failed image_path e w2
      | (Inr (datetime_str, location_str), w2) \<Rightarrow>
     (case img_size img of (original_width, original_height) \<Rightarrow>
     (case should_rotate_for_a6 original_width original_height of
        Inl e \<Rightarrow> failed image_path e w2
      | Inr rot \<Rightarrow>
     (case (if rot then (case rotate_err env img of
                          Some e \<Rightarrow> Inl e
                        | None \<Rightarrow> Inr (rotate90 img, print_msg RotatedNotice w2))
            else Inr (img, w2)) of
        Inl e \<Rightarrow> failed image_path e w2
      | Inr (img1, w3) \<Rightarrow>
     (case img_size img1 of (current_width, current_height) \<Rightarrow>
     (case calculate_dimensions current_width current_height of
        Inl e \<Rightarrow> failed image_path e w3
      | Inr (new_width, new_height) \<Rightarrow>
     (case resize_err env img1 (new_width, new_height) of
        Some e \<Rightarrow> failed image_path e w3
      | None \<Rightarrow>
     (let resized_image = resize img1 (new_width, new_height);
          canvas0 = \<lparr>canvas_size = (A6_WIDTH, A6_HEIGHT), canvas_fill = WHITE_BAR_COLOR, canvas_ops = []\<rparr>;
          x_offset = x_offset_of new_width;
          canvas1 = canvas0\<lparr>canvas_ops := canvas_ops canvas0 @ [Paste resized_image (x_offset, y_offset)]\<rparr>
      in
     (case int_mul_float A6_HEIGHT WHITE_BAR_RATIO of
        Inl e \<Rightarrow> failed image_path e w3
      | Inr wb \<Rightarrow>
     (let white_bar_height = py_int wb;
          white_bar_y = new_height;
          canvas2 = canvas1\<lparr>canvas_ops := canvas_ops canvas1 @
                      [Rectangle (0, white_bar_y, A6_WIDTH, A6_HEIGHT) WHITE_BAR_COLOR]\<rparr>
      in
     (case add_text_info env canvas2 white_bar_y white_bar_height datetime_str location_str of
        (canvas3, msgs) \<Rightarrow>
     (let w4 = w3\<lparr>printed := printed w3 @ msgs\<rparr> in
     (case save_err env canvas3 output_path of
        Some (e, residue) \<Rightarrow> failed image_path e (w4\<lparr>files := (files w4)(output_path := residue)\<rparr>)
      | None \<Rightarrow>
          (True, print_msg (Done output_path)
                   (w4\<lparr>files := (files w4)(output_path \<mapsto> Jpeg canvas3 95 (300, 300))\<rparr>))))))))))))))))"

definition supported_formats :: "string list" where
  "supported_formats = [''.jpg'', ''.jpeg'', ''.nef'', ''.raw'', ''.tiff'', ''.png'']"

text \<open>The loop of \<^verbatim>\<open>process_folder\<close> over the directory listing.\<close>

fun process_files :: "env \<Rightarrow> string \<Rightarrow> string \<Rightarrow> string list \<Rightarrow> nat \<Rightarrow> world \<Rightarrow> nat \<times> world" where
  "process_files env input_folder output_folder [] processed_count w = (processed_count, w)"
| "process_files env input_folder output_folder (filename # rest) processed_count w =
     (if endswith (lower filename) supported_formats then
        (let input_path = path_join env input_folder filename;
             name_without_ext = splitext_root env filename;
             output_filename = name_without_ext @ ''_postcard.jpg'';
             output_path = path_join env output_folder output_filename
         in (case create_postcard env input_path output_path (print_msg (Processing filename) w) of
               (ok, w1) \<Rightarrow>
                 process_files env input_folder output_folder rest
                   (if ok then processed_count + 1 else processed_count) w1))
      else process_files env input_folder output_folder rest processed_count w)"

definition process_folder :: "env \<Rightarrow> string \<Rightarrow> string \<Rightarrow> world \<Rightarrow> (py_error + unit) \<times> world" where
  "process_folder env input_folder output_folder w =
     (case (if \<not> path_exists env output_folder then makedirs_err env output_folder else None) of
        Some e \<Rightarrow> (Inl e, w)
      | None \<Rightarrow>
          (case listdir env input_folder of
             Inl e \<Rightarrow> (Inl e, w)
           | Inr names \<Rightarrow>
               (case process_files env input_folder output_folder names 0 w of
                  (processed_count, w1) \<Rightarrow> (Inr (), print_msg (Summary processed_count) w1))))"

subsection \<open>A sample environment\<close>

text \<open>
  One concrete environment, for evaluating the functions above: the file
  \<^verbatim>\<open>photo.jpg\<close> opens as an image of 1240 by 1433 pixels with a given tag table,
  every other file fails to open; no scalable font is installed, the built-in font
  loads; drawing fails or not according to the text to draw; saving succeeds.
  \<open>cjk_unsupported\<close> is a font that cannot draw the placeholder of
  \<^verbatim>\<open>extract_gps_location\<close>.
\<close>

definition sample_tags :: "int \<Rightarrow> string option" where
  "sample_tags k = (if k = 36867 then Some ''DateTimeOriginal''
                    else if k = 34853 then Some ''GPSInfo'' else None)"

definition sample_image :: "exif_dict option \<Rightarrow> image" where
  "sample_image table = \<lparr>img_size = (1240, 1433), img_getexif = Inr table, img_pixels = Decoded ''photo.jpg''\<rparr>"

definition sample_env :: "exif_dict option \<Rightarrow> (exif_value \<Rightarrow> py_error option) \<Rightarrow> env" where
  "sample_env table text_fails =
     \<lparr>image_open = (\<lambda>p. if p = ''photo.jpg'' then Inr (sample_image table) else Inl LibraryError),
      rotate_err = (\<lambda>img. None),
      resize_err = (\<lambda>img sz. None),
      truetype_err = (\<lambda>name. Some LibraryError),
      load_default_err = None,
      text_err = (\<lambda>c pos txt fnt. text_fails txt),
      save_err = (\<lambda>c p. None),
      TAGS = sample_tags,
      path_join = (\<lambda>a b. a @ ''/'' @ b),
      splitext_root = takeWhile (\<lambda>c. c \<noteq> CHR ''.''),
      path_exists = (\<lambda>p. True),
      makedirs_err = (\<lambda>p. None),
      listdir = (\<lambda>p. Inr [''photo.jpg''])\<rparr>"

definition empty_world :: world where
  "empty_world = \<lparr>files = (\<lambda>p. None), printed = []\<rparr>"

definition text_ok :: "exif_value \<Rightarrow> py_error option" where
  "text_ok txt = None"



section \<open>Properties of the rounding\<close>

lemma round_half_even_floor: "\<lfloor>y\<rfloor> \<le> round_half_even y" "round_half_even y \<le> \<lfloor>y\<rfloor> + 1"
  by (simp_all add: round_half_even_def Let_def)

lemma round_half_even_upper: "of_int (round_half_even y) \<le> y + 1/2"
  unfolding round_half_even_def Let_def by (auto; linarith)

lemma round_half_even_lower: "y - 1/2 \<le> of_int (round_half_even y)"
  unfolding round_half_even_def Let_def by (auto; linarith)

lemma round_half_even_of_int [simp]: "round_half_even (of_int m) = m"
  by (simp add: round_half_even_def)

lemma round_half_even_ge: "of_int m \<le> y \<Longrightarrow> m \<le> round_half_even y"
proof -
  assume "of_int m \<le> y"
  then have "m \<le> \<lfloor>y\<rfloor>" by (simp add: le_floor_iff)
  with round_half_even_floor(1)[of y] show ?thesis by linarith
qed

lemma round_half_even_le: 
  assumes "y \<le> of_int m" shows "round_half_even y \<le> m"
proof (cases "y = of_int m")
  case True then show ?thesis by simp
next
  case False
  with assms have "y < of_int m" by simp
  then have "\<lfloor>y\<rfloor> < m" by (simp add: floor_less_iff)
  with round_half_even_floor(2)[of y] show ?thesis by linarith
qed

lemma pow2_less_iff: "(2::rat) powi a < 2 powi b \<longleftrightarrow> a < b"
proof
  assume l: "(2::rat) powi a < 2 powi b"
  show "a < b"
  proof (rule ccontr)
    assume "\<not> a < b"
    then have "(2::rat) powi b \<le> 2 powi a" by (intro power_int_increasing) auto
    with l show False by simp
  qed
next
  assume "a < b" then show "(2::rat) powi a < 2 powi b"
    by (intro power_int_strict_increasing) auto
qed

lemma pow2_le_iff: "(2::rat) powi a \<le> 2 powi b \<longleftrightarrow> a \<le> b"
  using pow2_less_iff[of b a] by (auto simp: not_less[symmetric])

lemma pow2_add: "(2::rat) powi (a + b) = 2 powi a * 2 powi b"
  by (simp add: power_int_add)

lemma pow2_of_int: "0 \<le> k \<Longrightarrow> (2::rat) powi k = of_int (2 ^ nat k)"
  by (simp add: power_int_nonneg_exp)

lemma ilog2_bounds:
  assumes "0 < x"
  shows "2 powi (ilog2 x) \<le> x" and "x < 2 powi (ilog2 x + 1)"
proof -
  obtain p q where pq: "quotient_of x = (p, q)" by (cases "quotient_of x")
  then have q: "0 < q" and x: "x = of_int p / of_int q"
    using quotient_of_denom_pos quotient_of_div by blast+
  with assms have p: "0 < p" by (simp add: zero_less_divide_iff)
  define d where "d = bitlen p - bitlen q"
  have bp: "1 \<le> bitlen p" and bq: "1 \<le> bitlen q"
    using p q bitlen_eq_zero_iff[of p] bitlen_eq_zero_iff[of q] bitlen_nonneg[of p] bitlen_nonneg[of q]
    by linarith+
  have P: "(2::rat) powi (bitlen p - 1) \<le> of_int p" "of_int p < (2::rat) powi (bitlen p)"
    using bitlen_bounds[OF p] bp bitlen_nonneg[of p]
    by (simp_all only: pow2_of_int of_int_le_iff of_int_less_iff diff_ge_0_iff_ge)
  have Q: "(2::rat) powi (bitlen q - 1) \<le> of_int q" "of_int q < (2::rat) powi (bitlen q)"
    using bitlen_bounds[OF q] bq bitlen_nonneg[of q]
    by (simp_all only: pow2_of_int of_int_le_iff of_int_less_iff diff_ge_0_iff_ge)
  have qpos: "(0::rat) < of_int q" using q by simp
  have lo: "2 powi (d - 1) \<le> x"
  proof -
    have "(2::rat) powi (d - 1) * of_int q \<le> 2 powi (d - 1) * 2 powi (bitlen q)"
      using Q(2) by (simp add: mult_left_mono)
    also have "\<dots> = 2 powi (bitlen p - 1)"
      by (simp add: d_def flip: power_int_add)
    also have "\<dots> \<le> of_int p" by (rule P(1))
    finally show ?thesis using qpos by (simp add: x pos_le_divide_eq)
  qed
  have hi: "x < 2 powi (d + 1)"
  proof -
    have "of_int p < (2::rat) powi (bitlen p)" by (rule P(2))
    also have "\<dots> = 2 powi (d + 1) * 2 powi (bitlen q - 1)"
      by (simp add: d_def flip: power_int_add)
    also have "\<dots> \<le> 2 powi (d + 1) * of_int q"
      using Q(1) by (simp add: mult_left_mono)
    finally show ?thesis using qpos by (simp add: x pos_divide_less_eq)
  qed
  have e: "ilog2 x = (if 2 powi d \<le> x then d else d - 1)"
    by (simp add: ilog2_def pq d_def Let_def)
  show "2 powi (ilog2 x) \<le> x" using lo by (simp add: e)
  show "x < 2 powi (ilog2 x + 1)" using hi by (auto simp: e not_le)
qed

lemma ilog2_unique:
  assumes "(2::rat) powi e \<le> x" "x < 2 powi (e + 1)"
  shows "ilog2 x = e"
proof -
  have x: "0 < x" using assms(1) by (rule less_le_trans[rotated]) simp
  note b = ilog2_bounds[OF x]
  have "(2::rat) powi e < 2 powi (ilog2 x + 1)" using assms(1) b(2) by linarith
  then have 1: "e < ilog2 x + 1" by (simp only: pow2_less_iff)
  have "(2::rat) powi (ilog2 x) < 2 powi (e + 1)" using assms(2) b(1) by linarith
  then have 2: "ilog2 x < e + 1" by (simp only: pow2_less_iff)
  from 1 2 show ?thesis by linarith
qed


lemma ulp_pos [simp]: "0 < ulp a"
  by (simp add: ulp_def)

lemma rnd_pos: "0 < x \<Longrightarrow> rnd x = of_int (round_half_even (x / ulp x)) * ulp x"
  by (simp add: rnd_def)

lemma rnd_nonneg: 
  assumes "0 < x" shows "0 \<le> rnd x"
proof -
  have "(of_int 0 :: rat) \<le> x / ulp x" using assms ulp_pos[of x] by (simp add: less_imp_le)
  then have "0 \<le> round_half_even (x / ulp x)" by (rule round_half_even_ge)
  then have "(0::rat) \<le> of_int (round_half_even (x / ulp x))" by simp
  then have "0 \<le> of_int (round_half_even (x / ulp x)) * ulp x"
    by (rule mult_nonneg_nonneg) (simp add: less_imp_le)
  then show ?thesis by (simp only: rnd_pos[OF assms])
qed

lemma rnd_abs_err:
  assumes "0 < x" shows "\<bar>rnd x - x\<bar> \<le> ulp x / 2"
proof -
  define u where "u = ulp x"
  define r where "r = (of_int (round_half_even (x / u)) :: rat)"
  have u: "0 < u" by (simp add: u_def)
  have "\<bar>r - x / u\<bar> \<le> 1 / 2"
    using round_half_even_upper[of "x / u"] round_half_even_lower[of "x / u"]
    unfolding r_def by linarith
  then have B: "\<bar>r - x / u\<bar> * u \<le> (1 / 2) * u"
    using u by (intro mult_right_mono) auto
  have C: "\<bar>r - x / u\<bar> * u = \<bar>(r - x / u) * u\<bar>"
    using u by (simp add: abs_mult)
  have D: "(r - x / u) * u = r * u - x"
    using u by (simp add: left_diff_distrib)
  have "\<bar>r * u - x\<bar> \<le> (1 / 2) * u"
    using B unfolding C D .
  then show ?thesis by (simp add: rnd_pos[OF assms] r_def u_def)
qed

lemma ilog2_ge:
  assumes "2 powi k \<le> x" shows "k \<le> ilog2 x"
proof -
  have x: "0 < x" using assms by (rule less_le_trans[rotated]) simp
  have "(2::rat) powi k < 2 powi (ilog2 x + 1)" using assms ilog2_bounds(2)[OF x] by linarith
  then show ?thesis by (simp only: pow2_less_iff)
qed

lemma ilog2_less:
  assumes "0 < x" "x < 2 powi k" shows "ilog2 x < k"
proof -
  have "(2::rat) powi (ilog2 x) < 2 powi k" using assms ilog2_bounds(1)[OF assms(1)] by linarith
  then show ?thesis by (simp only: pow2_less_iff)
qed

lemma ulp_normal:
  assumes "2 powi (- 1022) \<le> x" shows "ulp x \<le> x * 2 powi (- 52)"
proof -
  have x: "0 < x" using assms by (rule less_le_trans[rotated]) simp
  have "- 1022 \<le> ilog2 x" using assms by (rule ilog2_ge)
  then have "ulp x = 2 powi (ilog2 x + (- 52))"
    by (simp add: ulp_def max_def)
  also have "\<dots> = 2 powi (ilog2 x) * 2 powi (- 52)"
    by (rule pow2_add)
  also have "\<dots> \<le> x * 2 powi (- 52)"
    using ilog2_bounds(1)[OF x] by (intro mult_right_mono) auto
  finally show ?thesis .
qed

lemma rnd_rel:
  assumes "2 powi (- 1022) \<le> x"
  shows "x * (1 - 2 powi (- 53)) \<le> rnd x" and "rnd x \<le> x * (1 + 2 powi (- 53))"
proof -
  have x: "0 < x" using assms by (rule less_le_trans[rotated]) simp
  define c :: rat where "c = 2 powi (- 53)"
  have "(2::rat) powi (- 52) = 2 powi (- 53 + 1)" by simp
  also have "\<dots> = c * 2" unfolding c_def by (subst pow2_add) simp
  finally have c2: "(2::rat) powi (- 52) = c * 2" .
  have "ulp x / 2 \<le> x * (c * 2) / 2" using ulp_normal[OF assms] unfolding c2 by simp
  then have "\<bar>rnd x - x\<bar> \<le> x * c" using rnd_abs_err[OF x] by simp
  then have "x - x * c \<le> rnd x" and "rnd x \<le> x + x * c"
    by linarith+
  then show "x * (1 - 2 powi (- 53)) \<le> rnd x" and "rnd x \<le> x * (1 + 2 powi (- 53))"
    by (simp_all only: c_def right_diff_distrib distrib_left mult_1_right)
qed


lemma pow2_split:
  assumes "j \<le> k"
  shows "(2::rat) powi k = of_int (2 ^ nat (k - j)) * 2 powi j"
proof -
  have "(2::rat) powi k = 2 powi ((k - j) + j)" by simp
  also have "\<dots> = 2 powi (k - j) * 2 powi j" by (rule pow2_add)
  also have "(2::rat) powi (k - j) = of_int (2 ^ nat (k - j))"
    using assms by (intro pow2_of_int) simp
  finally show ?thesis .
qed


lemma ulp_lower:
  assumes "- 1022 \<le> ilog2 y" "0 < y" shows "2 powi 52 \<le> y / ulp y"
proof -
  have e: "max (ilog2 y) (- 1022) = ilog2 y" using assms by simp
  have "ilog2 y = 52 + (ilog2 y - 52)" by simp
  then have "(2::rat) powi (ilog2 y) = 2 powi 52 * 2 powi (ilog2 y - 52)"
    by (metis pow2_add)
  also have "\<dots> = 2 powi 52 * ulp y" by (simp only: ulp_def e)
  finally have "2 powi 52 * ulp y \<le> y" using ilog2_bounds(1)[OF assms(2)] by simp
  then show ?thesis by (simp add: pos_le_divide_eq)
qed


lemma rnd_ge_float:
  assumes m: "0 < m" "m \<le> 2 ^ 53" and k: "- 1074 \<le> k"
    and le: "of_int m * 2 powi k \<le> y"
  shows "of_int m * 2 powi k \<le> rnd y"
proof -
  define j where "j = max (ilog2 y) (- 1022) - 52"
  have u: "ulp y = 2 powi j" by (simp add: ulp_def j_def)
  have "(0::rat) < of_int m * 2 powi k" using m(1) by simp
  with le have y: "0 < y" by linarith
  have r: "rnd y = of_int (round_half_even (y / 2 powi j)) * 2 powi j"
    by (simp only: rnd_pos[OF y] u)
  show ?thesis
  proof (cases "j \<le> k")
    case True
    define M where "M = m * 2 ^ nat (k - j)"
    have f: "of_int m * (2::rat) powi k = of_int M * 2 powi j"
      by (simp add: M_def pow2_split[OF True])
    with le have "of_int M * 2 powi j \<le> y" by simp
    then have "of_int M \<le> y / 2 powi j" by (simp add: pos_le_divide_eq)
    then have "M \<le> round_half_even (y / 2 powi j)" by (rule round_half_even_ge)
    then have "(of_int M :: rat) \<le> of_int (round_half_even (y / 2 powi j))" by simp
    then have "of_int M * (2::rat) powi j \<le> of_int (round_half_even (y / 2 powi j)) * 2 powi j"
      by (rule mult_right_mono) simp
    then show ?thesis by (simp only: f r)
  next
    case False
    then have kj: "k + 53 \<le> j + 52" by simp
    with k have e: "- 1022 \<le> ilog2 y" by (simp add: j_def max_def split: if_splits)
    have "of_int m * (2::rat) powi k \<le> of_int (2 ^ 53) * 2 powi k"
      using m(2) by (intro mult_right_mono) (simp_all only: of_int_le_iff zero_le_power_int zero_le_numeral)
    also have "\<dots> = 2 powi (53 + k)" by (simp add: pow2_add)
    also have "\<dots> \<le> 2 powi (52 + j)" using kj by (simp only: pow2_le_iff add.commute)
    also have "\<dots> = of_int (2 ^ 52) * 2 powi j" by (simp add: pow2_add)
    also have "\<dots> \<le> rnd y"
    proof -
      have "of_int (2 ^ 52) \<le> y / 2 powi j" using ulp_lower[OF e y] by (simp add: u)
      then have "2 ^ 52 \<le> round_half_even (y / 2 powi j)" by (rule round_half_even_ge)
      then have "(of_int (2 ^ 52) :: rat) \<le> of_int (round_half_even (y / 2 powi j))"
        by (simp only: of_int_le_iff)
      then have "of_int (2 ^ 52) * (2::rat) powi j \<le> of_int (round_half_even (y / 2 powi j)) * 2 powi j"
        by (rule mult_right_mono) simp
      then show ?thesis by (simp only: r)
    qed
    finally show ?thesis .
  qed
qed

lemma rnd_le_float:
  assumes m: "m \<le> 2 ^ 53" and k: "- 1074 \<le> k" and y: "0 < y"
    and le: "y \<le> of_int m * 2 powi k"
  shows "rnd y \<le> of_int m * 2 powi k"
proof -
  define j where "j = max (ilog2 y) (- 1022) - 52"
  have u: "ulp y = 2 powi j" by (simp add: ulp_def j_def)
  have r: "rnd y = of_int (round_half_even (y / 2 powi j)) * 2 powi j"
    by (simp only: rnd_pos[OF y] u)
  show ?thesis
  proof (cases "j \<le> k")
    case True
    define M where "M = m * 2 ^ nat (k - j)"
    have f: "of_int m * (2::rat) powi k = of_int M * 2 powi j"
      by (simp add: M_def pow2_split[OF True])
    with le have "y \<le> of_int M * 2 powi j" by simp
    then have "y / 2 powi j \<le> of_int M" by (simp add: pos_divide_le_eq)
    then have "round_half_even (y / 2 powi j) \<le> M" by (rule round_half_even_le)
    then have "(of_int (round_half_even (y / 2 powi j)) :: rat) \<le> of_int M" by simp
    then have "of_int (round_half_even (y / 2 powi j)) * (2::rat) powi j \<le> of_int M * 2 powi j"
      by (rule mult_right_mono) simp
    then show ?thesis by (simp only: f r)
  next
    case False
    then have kj: "k + 53 \<le> j + 52" by simp
    with k have e: "- 1022 \<le> ilog2 y" by (simp add: j_def max_def split: if_splits)
    have lo: "of_int (2 ^ 52) * 2 powi j \<le> y" 
      using ulp_lower[OF e y] by (simp add: u pos_le_divide_eq)
    have "of_int m * (2::rat) powi k \<le> of_int (2 ^ 53) * 2 powi k"
      using m by (intro mult_right_mono) (simp_all only: of_int_le_iff zero_le_power_int zero_le_numeral)
    also have "\<dots> = 2 powi (53 + k)" by (simp add: pow2_add)
    also have "\<dots> \<le> 2 powi (52 + j)" using kj by (simp only: pow2_le_iff add.commute)
    also have "\<dots> = of_int (2 ^ 52) * 2 powi j" by (simp add: pow2_add)
    finally have hi: "of_int m * (2::rat) powi k \<le> of_int (2 ^ 52) * 2 powi j" .
    with lo le have yeq: "y = of_int (2 ^ 52) * 2 powi j" and feq: "of_int m * (2::rat) powi k = y"
      by linarith+
    have "y / 2 powi j = of_int (2 ^ 52)" by (simp add: yeq)
    then have "rnd y = y" by (simp only: r round_half_even_of_int yeq[symmetric])
    then show ?thesis by (simp only: feq)
  qed
qed

lemma round_half_even_eqI:
  assumes "of_int m - 1/2 < y" "y < of_int m + 1/2"
  shows "round_half_even y = m"
proof (cases "of_int m \<le> y")
  case True
  then have "\<lfloor>y\<rfloor> = m" using assms(2) by (intro floor_unique) auto
  then show ?thesis using assms(2) by (simp add: round_half_even_def)
next
  case False
  then have "\<lfloor>y\<rfloor> = m - 1" using assms(1) by (intro floor_unique) auto
  then show ?thesis using assms(1) by (simp add: round_half_even_def)
qed

lemma rnd_eqI:
  assumes "2 powi e \<le> x" "x < 2 powi (e + 1)" "- 1022 \<le> e"
    and "of_int m - 1/2 < x / 2 powi (e - 52)" "x / 2 powi (e - 52) < of_int m + 1/2"
  shows "rnd x = of_int m * 2 powi (e - 52)"
proof -
  have x: "0 < x" using assms(1) by (rule less_le_trans[rotated]) simp
  have e: "ilog2 x = e" using assms(1,2) by (rule ilog2_unique)
  have u: "ulp x = 2 powi (e - 52)" using assms(3) by (simp add: ulp_def e)
  have "round_half_even (x / 2 powi (e - 52)) = m" using assms(4,5) by (rule round_half_even_eqI)
  then show ?thesis by (simp add: rnd_pos[OF x] u)
qed

lemma rnd_float_id:
  assumes "0 < m" "m \<le> 2 ^ 53" "- 1074 \<le> k"
  shows "rnd (of_int m * 2 powi k) = of_int m * 2 powi k"
proof (rule antisym)
  show "rnd (of_int m * 2 powi k) \<le> of_int m * 2 powi k"
    using assms by (intro rnd_le_float) simp_all
  show "of_int m * 2 powi k \<le> rnd (of_int m * 2 powi k)"
    using assms by (intro rnd_ge_float) simp_all
qed

lemma lit018: "rnd (18/100) = 3242591731706757/18014398509481984"
  by (rule trans[OF rnd_eqI[where e="-3" and m=6485183463413514]]; simp)

lemma lit082: "rnd (82/100) = 7385903388887613/9007199254740992"
  by (rule trans[OF rnd_eqI[where e="-1" and m=7385903388887613]]; simp)

lemma lit11: "rnd (11/10) = 2476979795053773/2251799813685248"
  by (rule trans[OF rnd_eqI[where e="0" and m=4953959590107546]]; simp)


lemma round_half_even_tie:
  assumes "y = of_int n + 1/2"
  shows "round_half_even y = (if even n then n else n + 1)"
proof -
  have "\<lfloor>y\<rfloor> = n" unfolding assms(1) by (intro floor_unique) auto
  then show ?thesis using assms by (simp add: round_half_even_def)
qed

lemma rnd_eq_tieI:
  assumes "2 powi e \<le> x" "x < 2 powi (e + 1)" "- 1022 \<le> e"
    and "x / 2 powi (e - 52) = of_int n + 1/2"
  shows "rnd x = of_int (if even n then n else n + 1) * 2 powi (e - 52)"
proof -
  have x: "0 < x" using assms(1) by (rule less_le_trans[rotated]) simp
  have e: "ilog2 x = e" using assms(1,2) by (rule ilog2_unique)
  have u: "ulp x = 2 powi (e - 52)" using assms(3) by (simp add: ulp_def e)
  have "round_half_even (x / 2 powi (e - 52)) = (if even n then n else n + 1)"
    using assms(4) by (rule round_half_even_tie)
  then show ?thesis by (simp add: rnd_pos[OF x] u)
qed

lemma bind_err_Inr [simp]: "bind_err (Inr v) f = f v"
  by (simp add: bind_err_def)

lemma bind_err_Inl [simp]: "bind_err (Inl e) f = Inl e"
  by (simp add: bind_err_def)

lemma py_int_eqI:
  assumes "0 \<le> n" "of_int n \<le> x" "x < of_int n + 1"
  shows "py_int x = n"
proof -
  have "(0::rat) \<le> of_int n" using assms(1) by simp
  with assms(2) have "0 \<le> x" by linarith
  moreover have "\<lfloor>x\<rfloor> = n" using assms(2,3) by (intro floor_unique) auto
  ultimately show ?thesis by (simp add: py_int_def)
qed

lemma rnd_small_int:
  assumes "0 < n" "n \<le> 2 ^ 53"
  shows "rnd (of_int n) = of_int n"
  using rnd_float_id[of n 0] assms by simp

lemma int_to_float_small:
  assumes "0 < n" "n \<le> 2 ^ 53"
  shows "int_to_float n = Inr (of_int n)"
proof -
  have "(of_int n :: rat) \<le> of_int (2 ^ 53)" using assms(2) by (simp only: of_int_le_iff)
  then have "(of_int n :: rat) < 2 powi 1024" by simp
  then show ?thesis using assms by (simp add: int_to_float_def rnd_small_int)
qed

lemma sub_val: "int_sub_float 1 WHITE_BAR_RATIO = Inr (3692951694443807/4503599627370496)"
proof -
  have "rnd (1 - 3242591731706757/18014398509481984) = 3692951694443807/4503599627370496"
    by (rule trans[OF rnd_eq_tieI[where e="-1" and n=7385903388887613]]; simp)
  then show ?thesis
    using int_to_float_small[of 1]
    unfolding int_sub_float_def WHITE_BAR_RATIO_def lit018 by (simp add: bind_err_def)
qed

lemma ah_val: "int_mul_float A6_HEIGHT (3692951694443807/4503599627370496) = Inr (3151991973578015/2199023255552)"
proof -
  have "rnd (1748 * (3692951694443807/4503599627370496)) = 3151991973578015/2199023255552"
    by (rule trans[OF rnd_eqI[where e="10" and m=6303983947156030]]; simp)
  then show ?thesis
    using int_to_float_small[of 1748]
    by (simp add: int_mul_float_def bind_err_def A6_HEIGHT_def)
qed

lemma t_val: "int_mul_float A6_HEIGHT (rnd (82 / 100)) = Inr (6303983947156029/4398046511104)"
proof -
  have "rnd (1748 * (7385903388887613/9007199254740992)) = 6303983947156029/4398046511104"
    by (rule trans[OF rnd_eqI[where e="10" and m=6303983947156029]]; simp)
  then show ?thesis
    using int_to_float_small[of 1748]
    unfolding int_mul_float_def lit082 A6_HEIGHT_def by (simp add: bind_err_def)
qed

lemma wb_val: "int_mul_float A6_HEIGHT WHITE_BAR_RATIO = Inr (2767602708507525/8796093022208)"
proof -
  have "rnd (1748 * (3242591731706757/18014398509481984)) = 2767602708507525/8796093022208"
    by (rule trans[OF rnd_eqI[where e="8" and m=5535205417015050]]; simp)
  then show ?thesis
    using int_to_float_small[of 1748]
    unfolding int_mul_float_def WHITE_BAR_RATIO_def lit018 A6_HEIGHT_def by (simp add: bind_err_def)
qed

lemma calculate_dimensions_unfold:
  "calculate_dimensions w h =
     bind_err (int_truediv 1240 w) (\<lambda>width_ratio.
     bind_err (int_truediv 1433 h) (\<lambda>height_ratio.
     bind_err (int_mul_float w (min width_ratio height_ratio)) (\<lambda>nw.
     bind_err (int_mul_float h (min width_ratio height_ratio)) (\<lambda>nh.
     Inr (py_int nw, py_int nh)))))"
proof -
  have "py_int (3151991973578015/2199023255552) = 1433" by (rule py_int_eqI) simp_all
  then show ?thesis
    by (simp add: calculate_dimensions_def sub_val ah_val A6_WIDTH_def Let_def)
qed


lemma eps_val: "eps = 1 / 9007199254740992"
  by (simp add: eps_def)

lemma eps_pos: "0 < eps"
  by (simp add: eps_def)

lemma eps_le_one: "eps \<le> 1"
  by (simp add: eps_val)

lemma rnd_rel_eps:
  assumes "2 powi (- 1022) \<le> x"
  shows "x * (1 - eps) \<le> rnd x" and "rnd x \<le> x * (1 + eps)"
  using rnd_rel[OF assms] by (simp_all only: eps_def)

lemma tiny_le_one: "(2::rat) powi (- 1022) \<le> 1"
proof -
  have "(2::rat) powi (- 1022) \<le> 2 powi 0" by (simp only: pow2_le_iff)
  then show ?thesis by (simp only: power_int_0_right)
qed

lemma of_int_less_huge:
  assumes "n < 2 ^ 1023" shows "(of_int n :: rat) < 2 powi 1023"
proof -
  have "(of_int n :: rat) < of_int (2 ^ 1023)" using assms by (simp only: of_int_less_iff)
  also have "(of_int (2 ^ 1023) :: rat) = 2 ^ 1023" by (simp only: of_int_power of_int_numeral)
  also have "\<dots> = 2 powi 1023" by (simp only: power_int_numeral)
  finally show ?thesis .
qed

lemma huge_double: "(2::rat) powi 1023 * 2 = 2 powi 1024"
proof -
  have "(2::rat) powi 1024 = 2 powi (1023 + 1)" by simp
  also have "\<dots> = 2 powi 1023 * 2 powi 1" by (rule pow2_add)
  finally show ?thesis by simp
qed

lemma no_overflow:
  assumes "0 < x" "x < 2 powi 1023" "rnd x \<le> x * (1 + eps)"
  shows "\<bar>rnd x\<bar> < 2 powi 1024"
proof -
  have "x * (1 + eps) \<le> x * 2" using assms(1) eps_le_one by (intro mult_left_mono) simp_all
  with assms have "rnd x < 2 powi 1023 * 2" by linarith
  then have "rnd x < 2 powi 1024" by (simp only: huge_double)
  moreover have "0 \<le> rnd x" using assms(1) by (rule rnd_nonneg)
  ultimately show ?thesis by simp
qed

lemma int_to_float_pos:
  assumes "0 < n" "n < 2 ^ 1023"
  shows "\<exists>f. int_to_float n = Inr f \<and> of_int n * (1 - eps) \<le> f \<and> f \<le> of_int n * (1 + eps)"
proof -
  define x :: rat where "x = of_int n"
  have x1: "1 \<le> x" using assms(1) by (simp add: x_def)
  have xu: "x < 2 powi 1023" unfolding x_def using assms(2) by (rule of_int_less_huge)
  have n: "2 powi (- 1022) \<le> x" using tiny_le_one x1 by linarith
  note r = rnd_rel_eps[OF n]
  have "\<bar>rnd x\<bar> < 2 powi 1024" using x1 xu r(2) by (intro no_overflow) simp_all
  then have "\<not> 2 powi 1024 \<le> \<bar>rnd x\<bar>" by (simp only: not_le)
  then have "int_to_float n = Inr (rnd x)"
    unfolding int_to_float_def x_def Let_def by (simp only: if_False)
  with r show ?thesis unfolding x_def by blast
qed

lemma huge_double25: "(2::rat) powi 1024 * 2 = 2 powi 1025"
proof -
  have "(2::rat) powi 1025 = 2 powi (1024 + 1)" by simp
  also have "\<dots> = 2 powi 1024 * 2 powi 1" by (rule pow2_add)
  finally show ?thesis by simp
qed

lemma int_to_float_bounds:
  assumes "0 < n" "int_to_float n = Inr f"
  shows "of_int n * (1 - eps) \<le> f" and "f \<le> of_int n * (1 + eps)"
    and "f < 2 powi 1024" and "of_int n < (2::rat) powi 1025"
proof -
  define x :: rat where "x = of_int n"
  have x1: "1 \<le> x" using assms(1) by (simp add: x_def)
  have f: "f = rnd x" and nov: "\<not> 2 powi 1024 \<le> \<bar>rnd x\<bar>"
    using assms(2) by (simp_all add: int_to_float_def x_def Let_def split: if_splits)
  have n: "2 powi (- 1022) \<le> x" using tiny_le_one x1 by linarith
  note r = rnd_rel_eps[OF n]
  show "of_int n * (1 - eps) \<le> f" and "f \<le> of_int n * (1 + eps)"
    using r unfolding f x_def by simp_all
  have "0 \<le> rnd x" using x1 by (intro rnd_nonneg) simp
  with nov show fu: "f < 2 powi 1024" unfolding f by simp
  have "x * (1 / 2) \<le> x * (1 - eps)" using x1 by (intro mult_left_mono) (simp_all add: eps_val)
  with r(1) fu have "x * (1 / 2) < 2 powi 1024" unfolding f by linarith
  then have "x < 2 powi 1024 * 2" by simp
  then show "of_int n < (2::rat) powi 1025" unfolding x_def by (simp only: huge_double25)
qed

lemma int_truediv_pos:
  assumes "1024 \<le> a" "a \<le> 2048" "0 < n" "of_int n < (2::rat) powi 1025"
  shows "\<exists>q. int_truediv a n = Inr q \<and> of_int a / of_int n * (1 - eps) \<le> q
           \<and> q \<le> of_int a / of_int n * (1 + eps) \<and> 2 powi (- 1016) \<le> q
           \<and> q = rnd (of_int a / of_int n)"
proof -
  define x :: rat where "x = of_int a / of_int n"
  define N :: rat where "N = of_int n"
  define A :: rat where "A = of_int a"
  have n1: "1 \<le> N" using assms(3) by (simp add: N_def)
  have nu: "N < 2 powi 1025" unfolding N_def using assms(4) .
  have a2: "2 powi 10 \<le> A" using assms(1) by (simp add: A_def)
  have au: "A \<le> 2048" using assms(2) by (simp add: A_def)
  have x: "x = A / N" by (simp add: x_def A_def N_def)
  have lo13: "2 powi (- 1015) \<le> x"
  proof -
    have "(2::rat) powi (- 1015) * N \<le> 2 powi (- 1015) * 2 powi 1025"
      using nu by (intro mult_left_mono) simp_all
    also have "\<dots> = 2 powi (- 1015 + 1025)" by (rule pow2_add[symmetric])
    also have "\<dots> = 2 powi 10" by simp
    also have "\<dots> \<le> A" by (rule a2)
    finally show ?thesis using n1 by (simp add: x pos_le_divide_eq)
  qed
  have "(2::rat) powi (- 1022) \<le> 2 powi (- 1015)" by (simp only: pow2_le_iff)
  with lo13 have lo: "2 powi (- 1022) \<le> x" by linarith
  have x0: "0 < x" using lo by (rule less_le_trans[rotated]) simp
  have xu: "x < 2 powi 1023"
  proof -
    have "0 \<le> A" using a2 by (rule order_trans[rotated]) simp
    then have "A \<le> A * N" using n1 mult_left_mono[of 1 N A] by simp
    then have "x \<le> A" using n1 by (simp add: x pos_divide_le_eq)
    also have "A \<le> 2 powi 11" using au by simp
    also have "(2::rat) powi 11 < 2 powi 1023" by (simp only: pow2_less_iff)
    finally show ?thesis .
  qed
  note r = rnd_rel_eps[OF lo]
  have "\<bar>rnd x\<bar> < 2 powi 1024" using x0 xu r(2) by (rule no_overflow)
  then have "\<not> 2 powi 1024 \<le> \<bar>rnd x\<bar>" by (simp only: not_le)
  moreover have "n \<noteq> 0" using assms(3) by simp
  ultimately have "int_truediv a n = Inr (rnd x)"
    unfolding int_truediv_def x_def Let_def by (simp only: if_False)
  moreover have "2 powi (- 1016) \<le> rnd x"
  proof -
    have "(2::rat) powi (- 1016) = 2 powi (- 1015 + (- 1))" by simp
    also have "\<dots> = 2 powi (- 1015) * 2 powi (- 1)" by (rule pow2_add)
    also have "\<dots> \<le> x * 2 powi (- 1)" using lo13 by (intro mult_right_mono) simp_all
    also have "\<dots> \<le> x * (1 - eps)" using x0 by (intro mult_left_mono) (simp_all add: eps_val)
    also have "\<dots> \<le> rnd x" by (rule r(1))
    finally show ?thesis .
  qed
  ultimately show ?thesis using r unfolding x_def by blast
qed

lemma scaled_product:
  assumes W: "1 \<le> W" and s: "0 < s" and slo: "2 powi (- 1016) \<le> s"
    and f: "W * (1 - eps) \<le> f" "f \<le> W * (1 + eps)"
  shows "W * s * (1 - eps)\<^sup>2 \<le> rnd (f * s)" and "rnd (f * s) \<le> W * s * (1 + eps)\<^sup>2"
    and "0 \<le> rnd (f * s)"
proof -
  have e1: "0 \<le> 1 - eps" "0 \<le> 1 + eps" by (simp_all add: eps_val)
  have half: "(2::rat) powi (- 1) \<le> 1 - eps" by (simp add: eps_val)
  have fl: "2 powi (- 1) \<le> f"
  proof -
    have "(2::rat) powi (- 1) \<le> 1 * (1 - eps)" using half by simp
    also have "\<dots> \<le> W * (1 - eps)" using W e1 by (intro mult_right_mono)
    finally show ?thesis using f(1) by linarith
  qed
  have f0: "0 < f" using fl by (rule less_le_trans[rotated]) simp
  have fs0: "0 < f * s" using f0 s by simp
  have n: "2 powi (- 1022) \<le> f * s"
  proof -
    have "(2::rat) powi (- 1022) \<le> 2 powi (- 1 + (- 1016))" by (simp only: pow2_le_iff) simp
    also have "\<dots> = 2 powi (- 1) * 2 powi (- 1016)" by (rule pow2_add)
    also have "\<dots> \<le> f * s" using fl slo by (intro mult_mono) simp_all
    finally show ?thesis .
  qed
  note r = rnd_rel_eps[OF n]
  have "W * s * (1 - eps)\<^sup>2 = (W * (1 - eps)) * s * (1 - eps)" by (simp add: power2_eq_square)
  also have "\<dots> \<le> f * s * (1 - eps)"
    using f(1) s e1 by (intro mult_right_mono) simp_all
  also have "\<dots> \<le> rnd (f * s)" by (rule r(1))
  finally show "W * s * (1 - eps)\<^sup>2 \<le> rnd (f * s)" .
  have "rnd (f * s) \<le> f * s * (1 + eps)" by (rule r(2))
  also have "\<dots> \<le> (W * (1 + eps)) * s * (1 + eps)"
    using f(2) s e1 by (intro mult_right_mono) simp_all
  also have "\<dots> = W * s * (1 + eps)\<^sup>2" by (simp add: power2_eq_square)
  finally show "rnd (f * s) \<le> W * s * (1 + eps)\<^sup>2" .
  show "0 \<le> rnd (f * s)" using fs0 by (rule rnd_nonneg)
qed

lemma ratio_times:
  assumes "0 < N" "0 \<le> s" "s \<le> A / N * (1 + eps)"
  shows "N * s \<le> A * (1 + eps)"
proof -
  have "N * s \<le> N * (A / N * (1 + eps))" using assms by (intro mult_left_mono) simp_all
  also have "\<dots> = A * (1 + eps)" using assms(1) by simp
  finally show ?thesis .
qed

lemma calc_dims_facts:
  assumes "0 < w" "0 < h" and cw: "int_to_float w = Inr fw" and ch: "int_to_float h = Inr fh"
  shows "\<exists>wr hr s. int_truediv 1240 w = Inr wr \<and> int_truediv 1433 h = Inr hr
     \<and> s = min wr hr
     \<and> calculate_dimensions w h = Inr (\<lfloor>rnd (fw * s)\<rfloor>, \<lfloor>rnd (fh * s)\<rfloor>)
     \<and> 0 < s \<and> of_int w * s \<le> 1240 * (1 + eps) \<and> of_int h * s \<le> 1433 * (1 + eps)
     \<and> of_int w * s * (1 - eps)\<^sup>2 \<le> rnd (fw * s) \<and> rnd (fw * s) \<le> of_int w * s * (1 + eps)\<^sup>2
     \<and> of_int h * s * (1 - eps)\<^sup>2 \<le> rnd (fh * s) \<and> rnd (fh * s) \<le> of_int h * s * (1 + eps)\<^sup>2"
proof -
  note fw = cw int_to_float_bounds[OF assms(1) cw]
  note fh = ch int_to_float_bounds[OF assms(2) ch]
  obtain wr where wr: "int_truediv 1240 w = Inr wr" "wr \<le> 1240 / of_int w * (1 + eps)"
      "2 powi (- 1016) \<le> wr"
    using int_truediv_pos[of 1240 w] assms(1) fw(5) by auto
  obtain hr where hr: "int_truediv 1433 h = Inr hr" "hr \<le> 1433 / of_int h * (1 + eps)"
      "2 powi (- 1016) \<le> hr"
    using int_truediv_pos[of 1433 h] assms(2) fh(5) by auto
  define s where "s = min wr hr"
  have slo: "2 powi (- 1016) \<le> s" using wr(3) hr(3) by (simp add: s_def)
  have s0: "0 < s" using slo by (rule less_le_trans[rotated]) simp
  have W: "(1::rat) \<le> of_int w" and H: "(1::rat) \<le> of_int h" using assms by simp_all
  have sw: "s \<le> 1240 / of_int w * (1 + eps)" using wr(2) by (simp add: s_def min_le_iff_disj)
  have sh: "s \<le> 1433 / of_int h * (1 + eps)" using hr(2) by (simp add: s_def min_le_iff_disj)
  have a: "of_int w * s \<le> 1240 * (1 + eps)"
    using W s0 sw by (intro ratio_times) simp_all
  have b: "of_int h * s \<le> 1433 * (1 + eps)"
    using H s0 sh by (intro ratio_times) simp_all
  note P = scaled_product[OF W s0 slo fw(2,3)]
  note Q = scaled_product[OF H s0 slo fh(2,3)]
  have "calculate_dimensions w h = Inr (\<lfloor>rnd (fw * s)\<rfloor>, \<lfloor>rnd (fh * s)\<rfloor>)"
    using P(3) Q(3)
    by (simp add: calculate_dimensions_unfold wr(1) hr(1) fw(1) fh(1) int_mul_float_def py_int_def s_def)
  then show ?thesis using wr(1) hr(1) s_def s0 a b P(1,2) Q(1,2) by blast
qed

lemma floor_le_of_bound:
  assumes "x < of_int n + 1" shows "\<lfloor>x::rat\<rfloor> \<le> n"
proof -
  have "x < of_int (n + 1)" using assms by simp
  then have "\<lfloor>x\<rfloor> < n + 1" by (simp only: floor_less_iff)
  then show ?thesis by simp
qed

lemma cross_bound:
  fixes W H s P Q e :: rat and nw nh :: int
  assumes W: "1 \<le> W" and H: "1 \<le> H" and s: "0 < s" and e: "0 \<le> e"
    and P: "W * s * (1 - e)\<^sup>2 \<le> P" "P \<le> W * s * (1 + e)\<^sup>2"
    and Q: "H * s * (1 - e)\<^sup>2 \<le> Q" "Q \<le> H * s * (1 + e)\<^sup>2"
    and small: "4 * e * (W * H * s) < 1"
  shows "of_int \<lfloor>P\<rfloor> * H - W * of_int \<lfloor>Q\<rfloor> < W + 1"
    and "W * of_int \<lfloor>Q\<rfloor> - of_int \<lfloor>P\<rfloor> * H < H + 1"
proof -
  define T where "T = W * H * s"
  have fp: "of_int \<lfloor>P\<rfloor> \<le> P" "P - 1 < of_int \<lfloor>P\<rfloor>" by linarith+
  have fq: "of_int \<lfloor>Q\<rfloor> \<le> Q" "Q - 1 < of_int \<lfloor>Q\<rfloor>" by linarith+
  have W0: "0 < W" and H0: "0 < H" using W H by linarith+
  have 1: "of_int \<lfloor>P\<rfloor> * H \<le> (W * s * (1 + e)\<^sup>2) * H"
    using fp(1) P(2) H0 by (intro mult_right_mono) linarith+
  have 2: "W * (H * s * (1 - e)\<^sup>2 - 1) < W * of_int \<lfloor>Q\<rfloor>"
    using fq(2) Q(1) W0 by (intro mult_strict_left_mono) linarith+
  have 3: "W * of_int \<lfloor>Q\<rfloor> \<le> W * (H * s * (1 + e)\<^sup>2)"
    using fq(1) Q(2) W0 by (intro mult_left_mono) linarith+
  have 4: "(W * s * (1 - e)\<^sup>2 - 1) * H < of_int \<lfloor>P\<rfloor> * H"
    using fp(2) P(1) H0 by (intro mult_strict_right_mono) linarith+
  have id1: "(W * s * (1 + e)\<^sup>2) * H - W * (H * s * (1 - e)\<^sup>2 - 1) = 4 * e * T + W"
    by (simp add: T_def power2_eq_square algebra_simps)
  have id2: "W * (H * s * (1 + e)\<^sup>2) - (W * s * (1 - e)\<^sup>2 - 1) * H = 4 * e * T + H"
    by (simp add: T_def power2_eq_square algebra_simps)
  have sm: "4 * e * T < 1" using small by (simp only: T_def)
  show "of_int \<lfloor>P\<rfloor> * H - W * of_int \<lfloor>Q\<rfloor> < W + 1"
    using 1 2 id1 sm by linarith
  show "W * of_int \<lfloor>Q\<rfloor> - of_int \<lfloor>P\<rfloor> * H < H + 1"
    using 3 4 id2 sm by linarith
qed

lemma calc_dims_bounds:
  assumes "0 < w" "0 < h" and cw: "int_to_float w = Inr fw" and ch: "int_to_float h = Inr fh"
  shows "\<exists>nw nh. calculate_dimensions w h = Inr (nw, nh) \<and> 0 \<le> nw \<and> nw \<le> 1240
     \<and> 0 \<le> nh \<and> nh \<le> 1433
     \<and> (min w h \<le> 2 ^ 40 \<longrightarrow> nw * h - w * nh \<le> w \<and> w * nh - nw * h \<le> h)"
proof -
  from calc_dims_facts[OF assms] obtain s where
    c: "calculate_dimensions w h = Inr (\<lfloor>rnd (fw * s)\<rfloor>, \<lfloor>rnd (fh * s)\<rfloor>)"
    and s0: "0 < s"
    and a: "of_int w * s \<le> 1240 * (1 + eps)" and b: "of_int h * s \<le> 1433 * (1 + eps)"
    and P: "of_int w * s * (1 - eps)\<^sup>2 \<le> rnd (fw * s)" "rnd (fw * s) \<le> of_int w * s * (1 + eps)\<^sup>2"
    and Q: "of_int h * s * (1 - eps)\<^sup>2 \<le> rnd (fh * s)" "rnd (fh * s) \<le> of_int h * s * (1 + eps)\<^sup>2"
    by blast
  define W :: rat where "W = of_int w"
  define H :: rat where "H = of_int h"
  define p where "p = rnd (fw * s)"
  define q where "q = rnd (fh * s)"
  note facts = a b P Q
  note f = facts[folded W_def H_def p_def q_def]
  have W1: "1 \<le> W" and H1: "1 \<le> H" using assms by (simp_all add: W_def H_def)
  have sq: "0 \<le> (1 + eps)\<^sup>2" "0 \<le> (1 - eps)\<^sup>2" by simp_all
  have Ws0: "0 \<le> W * s" and Hs0: "0 \<le> H * s" using W1 H1 s0 by simp_all
  have p0: "0 \<le> p"
  proof -
    have "0 \<le> W * s * (1 - eps)\<^sup>2" using Ws0 sq(2) by (rule mult_nonneg_nonneg)
    with f(3) show ?thesis by linarith
  qed
  have q0: "0 \<le> q"
  proof -
    have "0 \<le> H * s * (1 - eps)\<^sup>2" using Hs0 sq(2) by (rule mult_nonneg_nonneg)
    with f(5) show ?thesis by linarith
  qed
  have pu: "p < 1241"
  proof -
    have "W * s * (1 + eps)\<^sup>2 \<le> 1240 * (1 + eps) * (1 + eps)\<^sup>2"
      using f(1) sq(1) by (rule mult_right_mono)
    also have "\<dots> < 1241" by (simp add: eps_val power2_eq_square)
    finally show ?thesis using f(4) by linarith
  qed
  have qu: "q < 1434"
  proof -
    have "H * s * (1 + eps)\<^sup>2 \<le> 1433 * (1 + eps) * (1 + eps)\<^sup>2"
      using f(2) sq(1) by (rule mult_right_mono)
    also have "\<dots> < 1434" by (simp add: eps_val power2_eq_square)
    finally show ?thesis using f(6) by linarith
  qed
  have nw: "0 \<le> \<lfloor>p\<rfloor>" "\<lfloor>p\<rfloor> \<le> 1240"
    using p0 pu by (simp_all add: floor_le_of_bound)
  have nh: "0 \<le> \<lfloor>q\<rfloor>" "\<lfloor>q\<rfloor> \<le> 1433"
    using q0 qu by (simp_all add: floor_le_of_bound)
  have asp: "\<lfloor>p\<rfloor> * h - w * \<lfloor>q\<rfloor> \<le> w \<and> w * \<lfloor>q\<rfloor> - \<lfloor>p\<rfloor> * h \<le> h" if m: "min w h \<le> 2 ^ 40"
  proof -
    have T: "W * H * s \<le> 1434 * 2 ^ 40"
    proof (cases "h \<le> 2 ^ 40")
      case True
      then have "H \<le> of_int (2 ^ 40)" unfolding H_def by (simp only: of_int_le_iff)
      then have Hb: "H \<le> 2 ^ 40" by simp
      have "W * H * s = (W * s) * H" by simp
      also have "\<dots> \<le> (1240 * (1 + eps)) * 2 ^ 40"
      proof (rule mult_mono)
        show "W * s \<le> 1240 * (1 + eps)" by (rule f(1))
        show "H \<le> 2 ^ 40" by (rule Hb)
        show "0 \<le> 1240 * (1 + eps)" using eps_pos by simp
        show "0 \<le> H" using H1 by simp
      qed
      also have "\<dots> \<le> 1434 * 2 ^ 40" by (simp add: eps_val)
      finally show ?thesis .
    next
      case False
      with m have "w \<le> 2 ^ 40" by (simp add: min_le_iff_disj)
      then have "W \<le> of_int (2 ^ 40)" unfolding W_def by (simp only: of_int_le_iff)
      then have Wb: "W \<le> 2 ^ 40" by simp
      have "W * H * s = (H * s) * W" by simp
      also have "\<dots> \<le> (1433 * (1 + eps)) * 2 ^ 40"
      proof (rule mult_mono)
        show "H * s \<le> 1433 * (1 + eps)" by (rule f(2))
        show "W \<le> 2 ^ 40" by (rule Wb)
        show "0 \<le> 1433 * (1 + eps)" using eps_pos by simp
        show "0 \<le> W" using W1 by simp
      qed
      also have "\<dots> \<le> 1434 * 2 ^ 40" by (simp add: eps_val)
      finally show ?thesis .
    qed
    have "4 * eps * (W * H * s) \<le> 4 * eps * (1434 * 2 ^ 40)"
      using T eps_pos by (intro mult_left_mono) simp_all
    also have "\<dots> < 1" by (simp add: eps_val)
    finally have small: "4 * eps * (W * H * s) < 1" .
    have e0: "0 \<le> eps" using eps_pos by simp
    note cb = cross_bound[OF W1 H1 s0 e0 f(3,4) f(5,6) small]
    have "(of_int (\<lfloor>p\<rfloor> * h - w * \<lfloor>q\<rfloor>) :: rat) < of_int (w + 1)"
      using cb(1) by (simp add: W_def H_def)
    then have 1: "\<lfloor>p\<rfloor> * h - w * \<lfloor>q\<rfloor> < w + 1" by (simp only: of_int_less_iff)
    have "(of_int (w * \<lfloor>q\<rfloor> - \<lfloor>p\<rfloor> * h) :: rat) < of_int (h + 1)"
      using cb(2) by (simp add: W_def H_def)
    then have 2: "w * \<lfloor>q\<rfloor> - \<lfloor>p\<rfloor> * h < h + 1" by (simp only: of_int_less_iff)
    from 1 2 show ?thesis by simp
  qed
  show ?thesis
    using c nw nh asp unfolding p_def q_def by blast
qed








lemma calc_dims_conv:
  assumes "calculate_dimensions w h = Inr r"
  shows "\<exists>fw fh. int_to_float w = Inr fw \<and> int_to_float h = Inr fh"
  using assms unfolding calculate_dimensions_unfold int_mul_float_def bind_err_def
  by (auto split: sum.splits)


section \<open>Evaluation at concrete images\<close>

lemma int_truediv_eval:
  assumes "b \<noteq> 0" "rnd (of_int a / of_int b) = r" "\<bar>r\<bar> < 2 powi 1024"
  shows "int_truediv a b = Inr r"
  using assms by (simp add: int_truediv_def Let_def)

lemma int_mul_float_eval:
  assumes "int_to_float n = Inr nf" "rnd (nf * x) = r"
  shows "int_mul_float n x = Inr r"
  using assms by (simp add: int_mul_float_def)

lemma float_div_int_eval:
  assumes "int_to_float n = Inr nf" "nf \<noteq> 0" "rnd (x / nf) = r"
  shows "float_div_int x n = Inr r"
  using assms by (simp add: float_div_int_def)

lemma rnd_31_100: "rnd (31 / 100) = 5584463537939415 / 18014398509481984"
  by (rule trans[OF rnd_eqI[where e="-2" and m=5584463537939415]]; simp)

lemma rnd_1433_3000: "rnd (1433 / 3000) = 2151219422007307 / 4503599627370496"
  by (rule trans[OF rnd_eqI[where e="-2" and m=8604877688029228]]; simp)

lemma rnd_4000_scaled: "rnd (698057942242426875 / 562949953421312) = 1240"
  by (rule trans[OF rnd_eqI[where e="10" and m=5453577673768960]]; simp)

lemma rnd_3000_scaled: "rnd (2094173826727280625 / 2251799813685248) = 930"
  by (rule trans[OF rnd_eqI[where e="9" and m=8180366510653440]]; simp)

lemma rnd_31_250: "rnd (31 / 250) = 1116892707587883 / 9007199254740992"
  by (rule trans[OF rnd_eqI[where e="-4" and m=8935141660703064]]; simp)

lemma rnd_1433_10: "rnd (1433 / 10) = 2520960260164813 / 17592186044416"
  by (rule trans[OF rnd_eqI[where e="7" and m=5041920520329626]]; simp)

lemma rnd_10_scaled: "rnd (5584463537939415 / 4503599627370496) = 5584463537939415 / 4503599627370496"
  by (rule trans[OF rnd_eqI[where e="0" and m=5584463537939415]]; simp)









lemma calc_4000_3000: "calculate_dimensions 4000 3000 = Inr (1240, 930)"
proof -
  have a: "int_truediv 1240 4000 = Inr (5584463537939415 / 18014398509481984)"
    by (rule int_truediv_eval) (simp_all add: rnd_31_100)
  have b: "int_truediv 1433 3000 = Inr (2151219422007307 / 4503599627370496)"
    by (rule int_truediv_eval) (simp_all add: rnd_1433_3000)
  have c: "int_mul_float 4000 (5584463537939415 / 18014398509481984) = Inr 1240"
    by (rule int_mul_float_eval[OF int_to_float_small]) (simp_all add: rnd_4000_scaled)
  have d: "int_mul_float 3000 (5584463537939415 / 18014398509481984) = Inr 930"
    by (rule int_mul_float_eval[OF int_to_float_small]) (simp_all add: rnd_3000_scaled)
  show ?thesis by (simp add: calculate_dimensions_unfold a b c d py_int_def)
qed

lemma calc_10000_10: "calculate_dimensions 10000 10 = Inr (1240, 1)"
proof -
  have a: "int_truediv 1240 10000 = Inr (1116892707587883 / 9007199254740992)"
    by (rule int_truediv_eval) (simp_all add: rnd_31_250)
  have b: "int_truediv 1433 10 = Inr (2520960260164813 / 17592186044416)"
    by (rule int_truediv_eval) (simp_all add: rnd_1433_10)
  have c: "int_mul_float 10000 (1116892707587883 / 9007199254740992) = Inr 1240"
    by (rule int_mul_float_eval[OF int_to_float_small]) (simp_all add: rnd_4000_scaled)
  have d: "int_mul_float 10 (1116892707587883 / 9007199254740992) = Inr (5584463537939415 / 4503599627370496)"
    by (rule int_mul_float_eval[OF int_to_float_small]) (simp_all add: rnd_10_scaled)
  have e: "py_int (5584463537939415 / 4503599627370496) = 1" by (rule py_int_eqI) simp_all
  show ?thesis by (simp add: calculate_dimensions_unfold a b c d e) (simp add: py_int_def)
qed



section \<open>The layout\<close>

lemma calc_dims_total:
  assumes "0 < w" "w < 2 ^ 1023" "0 < h" "h < 2 ^ 1023"
  shows "\<exists>p. calculate_dimensions w h = Inr p"
proof -
  obtain fw where fw: "int_to_float w = Inr fw" using int_to_float_pos[OF assms(1,2)] by blast
  obtain fh where fh: "int_to_float h = Inr fh" using int_to_float_pos[OF assms(3,4)] by blast
  from calc_dims_bounds[OF assms(1,3) fw fh] show ?thesis by blast
qed


subsection \<open>Claims about the layout\<close>

text \<open>
  C3. An image that is not wider than high (portrait or square) is never rotated:
  \<^verbatim>\<open>should_rotate_for_a6\<close> returns \<^verbatim>\<open>False\<close>, without raising, for every
  \<open>width \<le> height\<close>.
\<close>
theorem portrait_never_rotates:
  "width \<le> height \<Longrightarrow> should_rotate_for_a6 width height = Inr False"
  by (simp add: should_rotate_for_a6_def)

theorem portrait_never_rotates_witness:
  "(3000::int) \<le> 4000 \<and> should_rotate_for_a6 3000 4000 = Inr False"
  using portrait_never_rotates[of 3000 4000] by simp



text \<open>
  C7. For positive source dimensions, whenever \<^verbatim>\<open>calculate_dimensions\<close> returns
  (and it returns for all dimensions below \<open>2 ^ 1023\<close>; beyond the range of binary64
  the conversion of the dimension raises OverflowError), the content width is at most
  the canvas width 1240, and the content height plus the strip height
  \<^verbatim>\<open>int(1748 * 0.18)\<close>, which is 314, is at most the canvas height 1748.
\<close>
theorem canvas_plan_invariant:
  assumes "0 < w" "0 < h"
  shows "(w < 2 ^ 1023 \<and> h < 2 ^ 1023 \<longrightarrow> (\<exists>p. calculate_dimensions w h = Inr p))
    \<and> (\<forall>nw nh. calculate_dimensions w h = Inr (nw, nh) \<longrightarrow>
          (\<exists>wb. int_mul_float A6_HEIGHT WHITE_BAR_RATIO = Inr wb \<and> py_int wb = 314
             \<and> nw \<le> A6_WIDTH \<and> nh + py_int wb \<le> A6_HEIGHT))"
proof (intro conjI impI allI)
  assume "w < 2 ^ 1023 \<and> h < 2 ^ 1023"
  then show "\<exists>p. calculate_dimensions w h = Inr p"
    using calc_dims_total assms by blast
next
  fix nw nh assume c: "calculate_dimensions w h = Inr (nw, nh)"
  from calc_dims_conv[OF c] obtain fw fh where
    "int_to_float w = Inr fw" "int_to_float h = Inr fh" by blast
  from calc_dims_bounds[OF assms this] c have b: "nw \<le> 1240" "nh \<le> 1433" by auto
  have p: "py_int (2767602708507525/8796093022208) = 314" by (rule py_int_eqI) simp_all
  show "\<exists>wb. int_mul_float A6_HEIGHT WHITE_BAR_RATIO = Inr wb \<and> py_int wb = 314
             \<and> nw \<le> A6_WIDTH \<and> nh + py_int wb \<le> A6_HEIGHT"
  proof (intro exI conjI)
    show "int_mul_float A6_HEIGHT WHITE_BAR_RATIO = Inr (2767602708507525/8796093022208)"
      by (rule wb_val)
    show "py_int (2767602708507525/8796093022208) = 314" by (rule p)
    show "nw \<le> A6_WIDTH" using b(1) by (simp add: A6_WIDTH_def)
    show "nh + py_int (2767602708507525/8796093022208) \<le> A6_HEIGHT"
      using b(2) unfolding p by (simp add: A6_HEIGHT_def)
  qed
qed

theorem canvas_plan_invariant_witness:
  "(0::int) < 4000 \<and> (0::int) < 3000 \<and> (4000::int) < 2 ^ 1023 \<and> (3000::int) < 2 ^ 1023
   \<and> calculate_dimensions 4000 3000 = Inr (1240, 930)
   \<and> (\<exists>wb. int_mul_float A6_HEIGHT WHITE_BAR_RATIO = Inr wb \<and> py_int wb = 314
         \<and> 1240 \<le> A6_WIDTH \<and> 930 + py_int wb \<le> A6_HEIGHT)"
  using canvas_plan_invariant[of 4000 3000] calc_4000_3000 by simp

text \<open>
  C1, as amended. For positive source dimensions \<^verbatim>\<open>calculate_dimensions\<close> returns for
  all dimensions below \<open>2 ^ 1023\<close>. Whenever it returns, the result is the floor of
  the dimensions multiplied, in binary64, by the smaller of the two quotients
  \<^verbatim>\<open>1240 / width\<close> and \<^verbatim>\<open>1433 / height\<close>, where 1433 is
  \<^verbatim>\<open>int(1748 * (1 - 0.18))\<close>; the new width is between 0 and 1240, the new height
  between 0 and \<open>1748 * (1 - 0.18)\<close>; and the proportions are kept up to the rounding
  of one pixel in each dimension: \<open>- h \<le> w' * h - w * h' \<le> w\<close> (for images whose
  smaller side is at most \<open>2 ^ 40\<close>). There is no bound on
  \<open>\<bar>w' / h' - w / h\<bar>\<close> that is independent of the image: the second theorem gives an
  image of 10000 by 10 pixels that becomes 1240 by 1, so that the two ratios differ
  by 240.
\<close>
theorem calculate_dimensions_fit:
  assumes "0 < w" "0 < h"
  shows "(w < 2 ^ 1023 \<and> h < 2 ^ 1023 \<longrightarrow> (\<exists>p. calculate_dimensions w h = Inr p))
    \<and> (\<forall>nw nh. calculate_dimensions w h = Inr (nw, nh) \<longrightarrow>
          (\<exists>wr hr fw fh. int_truediv A6_WIDTH w = Inr wr \<and> int_truediv 1433 h = Inr hr
              \<and> int_to_float w = Inr fw \<and> int_to_float h = Inr fh
              \<and> nw = \<lfloor>rnd (fw * min wr hr)\<rfloor> \<and> nh = \<lfloor>rnd (fh * min wr hr)\<rfloor>)
          \<and> 0 \<le> nw \<and> nw \<le> A6_WIDTH \<and> 0 \<le> nh
          \<and> of_int nh \<le> (of_int A6_HEIGHT * (1 - 18 / 100) :: rat)
          \<and> (min w h \<le> 2 ^ 40 \<longrightarrow> nw * h - w * nh \<le> w \<and> w * nh - nw * h \<le> h))"
proof (intro conjI impI allI)
  assume "w < 2 ^ 1023 \<and> h < 2 ^ 1023"
  then show "\<exists>p. calculate_dimensions w h = Inr p"
    using calc_dims_total assms by blast
next
  fix nw nh assume c: "calculate_dimensions w h = Inr (nw, nh)"
  from calc_dims_conv[OF c] obtain fw fh where
    f: "int_to_float w = Inr fw" "int_to_float h = Inr fh" by blast
  from calc_dims_facts[OF assms f] c
  show "\<exists>wr hr fw fh. int_truediv A6_WIDTH w = Inr wr \<and> int_truediv 1433 h = Inr hr
              \<and> int_to_float w = Inr fw \<and> int_to_float h = Inr fh
              \<and> nw = \<lfloor>rnd (fw * min wr hr)\<rfloor> \<and> nh = \<lfloor>rnd (fh * min wr hr)\<rfloor>"
    using f unfolding A6_WIDTH_def by auto
  from calc_dims_bounds[OF assms f] c
  have b: "0 \<le> nw" "nw \<le> 1240" "0 \<le> nh" "nh \<le> 1433"
      "min w h \<le> 2 ^ 40 \<longrightarrow> nw * h - w * nh \<le> w \<and> w * nh - nw * h \<le> h"
    by auto
  show "0 \<le> nw" "0 \<le> nh" by (rule b)+
  show "nw \<le> A6_WIDTH" using b(2) by (simp add: A6_WIDTH_def)
  have "(of_int nh :: rat) \<le> of_int 1433" using b(4) by (simp only: of_int_le_iff)
  then show "of_int nh \<le> (of_int A6_HEIGHT * (1 - 18 / 100) :: rat)"
    by (simp add: A6_HEIGHT_def)
  { assume "min w h \<le> 2 ^ 40"
    with b(5) show "nw * h - w * nh \<le> w" "w * nh - nw * h \<le> h" by simp_all }
qed

theorem calculate_dimensions_fit_witness:
  "(0::int) < 4000 \<and> (0::int) < 3000 \<and> (4000::int) < 2 ^ 1023 \<and> (3000::int) < 2 ^ 1023
   \<and> min (4000::int) 3000 \<le> 2 ^ 40
   \<and> calculate_dimensions 4000 3000 = Inr (1240, 930)
   \<and> (1240::int) \<le> A6_WIDTH \<and> (of_int (930::int) :: rat) \<le> of_int A6_HEIGHT * (1 - 18 / 100)
   \<and> (1240::int) * 3000 - 4000 * 930 \<le> 4000 \<and> (4000::int) * 930 - 1240 * 3000 \<le> 3000"
  using calculate_dimensions_fit[of 4000 3000] calc_4000_3000
  by (simp add: A6_WIDTH_def A6_HEIGHT_def)

theorem aspect_tolerance_counterexample:
  "calculate_dimensions 10000 10 = Inr (1240, 1)
   \<and> \<not> \<bar>(of_int 1240 :: rat) / of_int 1 - of_int 10000 / of_int 10\<bar> < 1"
  using calc_10000_10 by simp



lemma rnd_1240_33253: "rnd (1240 / 33253) = 2687018212102085 / 72057594037927936"
  by (rule trans[OF rnd_eqI[where e="-5" and m=5374036424204170]]; simp)

lemma rnd_t_30230: "rnd (6303983947156029 / 132952946030673920) = 3416621666893959 / 72057594037927936"
  by (rule trans[OF rnd_eqI[where e="-5" and m=6833243333787918]]; simp)

lemma rnd_124_3023: "rnd (124 / 3023) = 1477860016656147 / 36028797018963968"
  by (rule trans[OF rnd_eqI[where e="-5" and m=5911440066624588]]; simp)

lemma rnd_t_33253: "rnd (6303983947156029 / 146248240633741312) = 6212039394352653 / 144115188075855872"
  by (rule trans[OF rnd_eqI[where e="-5" and m=6212039394352653]]; simp)

lemma rnd_hr_times: "rnd (6655689820318378052691940416705 / 162259276829213363391578010288128) = 5911440066624587 / 144115188075855872"
  by (rule trans[OF rnd_eqI[where e="-5" and m=5911440066624587]]; simp)

text \<open>
  The comparison is one of binary64 numbers. For an image of 33253 by 30230 pixels the
  exact quotients \<open>1240 / 30230\<close> and \<open>1240 / 33253\<close> are in the ratio 11 to 10, and
  the rounded product of the rounded quotient by the literal 1.1 falls one unit in the
  last place below the other rounded quotient: the image is rotated.
\<close>

lemma rotation_rounding_33253_30230:
  "should_rotate_for_a6 33253 30230 = Inr True
   \<and> (1240 / 30230 :: rat) = 11 / 10 * (1240 / 33253)"
proof -
  have a: "int_truediv A6_WIDTH 33253 = Inr (2687018212102085 / 72057594037927936)"
    unfolding A6_WIDTH_def by (rule int_truediv_eval) (simp_all add: rnd_1240_33253)
  have b: "float_div_int (6303983947156029/4398046511104) 30230 = Inr (3416621666893959 / 72057594037927936)"
    by (rule float_div_int_eval[OF int_to_float_small]) (simp_all add: rnd_t_30230)
  have c: "int_truediv A6_WIDTH 30230 = Inr (1477860016656147 / 36028797018963968)"
    unfolding A6_WIDTH_def by (rule int_truediv_eval) (simp_all add: rnd_124_3023)
  have d: "float_div_int (6303983947156029/4398046511104) 33253 = Inr (6212039394352653 / 144115188075855872)"
    by (rule float_div_int_eval[OF int_to_float_small]) (simp_all add: rnd_t_33253)
  have hr: "horizontal_ratio 33253 30230 = Inr (2687018212102085 / 72057594037927936)"
    unfolding horizontal_ratio_def t_val by (simp add: a b)
  have vr: "vertical_ratio 33253 30230 = Inr (1477860016656147 / 36028797018963968)"
    unfolding vertical_ratio_def t_val by (simp add: c d)
  have "should_rotate_for_a6 33253 30230 = Inr True"
    unfolding should_rotate_for_a6_def lit11 by (simp add: hr vr rnd_hr_times)
  then show ?thesis by simp
qed

section \<open>Metadata, composition and the batch loop\<close>


lemma scan_tags_snd_absent:
  assumes "\<forall>(k', v') \<in> set items. tags k' \<noteq> Some ''GPSInfo''"
  shows "snd (scan_tags tags items (d, l)) = l"
  using assms by (induction items arbitrary: d l) (auto split: if_splits)

lemma scan_tags_fst_absent:
  assumes "\<forall>(k', v') \<in> set items. tags k' \<noteq> Some ''DateTimeOriginal''"
  shows "fst (scan_tags tags items (d, l)) = d"
  using assms by (induction items arbitrary: d l) (auto split: if_splits)

lemma read_raw_file_None: "fst (read_raw_file p w) = None"
  by (simp add: read_raw_file_def)

lemma extract_exif_data_total:
  "\<exists>r w'. extract_exif_data env p w = (Inr r, w')"
  by (auto simp: extract_exif_data_def read_raw_file_def bind_err_def
      split: sum.splits option.splits prod.splits)

lemma extract_exif_data_table:
  assumes "image_open env p = Inr img" "img_getexif img = Inr (Some items)" "items \<noteq> []"
  shows "extract_exif_data env p w = (Inr (scan_tags (TAGS env) items (None, None)), w)"
  using assms by (simp add: extract_exif_data_def)

lemma extract_exif_data_no_table:
  assumes "bind_err (image_open env p) img_getexif \<notin> {Inr (Some items) | items. items \<noteq> []}"
  shows "fst (extract_exif_data env p w) = Inr (None, None)"
  using assms
  by (auto simp: extract_exif_data_def read_raw_file_def
      split: sum.splits option.splits prod.splits)





lemma create_postcard_raw:
  assumes "is_raw image_path"
  shows "create_postcard env image_path output_path w =
     (False, print_msg (CannotRead image_path) (print_msg (RawReadFailed image_path NameError) w))"
  using assms by (simp add: create_postcard_def read_raw_file_def)

lemma files_print_msg [simp]: "files (print_msg m w) = files w"
  by (simp add: print_msg_def)

lemma printed_print_msg [simp]: "printed (print_msg m w) = printed w @ [m]"
  by (simp add: print_msg_def)




lemma create_postcard_text_failed:
  assumes "create_postcard env image_path output_path w = (ok, w')"
    and "TextFailed e \<in> set (printed w')" "TextFailed e \<notin> set (printed w)"
    and "\<forall>c. save_err env c output_path = None"
  shows "ok \<and> (\<exists>c. files w' output_path = Some (Jpeg c 95 (300, 300)))"
proof -
  have x: "printed (snd (extract_exif_data env image_path w1)) = printed w1
        \<or> (\<exists>p. printed (snd (extract_exif_data env image_path w1)) = printed w1 @ [RawReadFailed p NameError])" for w1
    by (auto simp: extract_exif_data_def read_raw_file_def bind_err_def
      split: sum.splits option.splits prod.splits)
  show ?thesis
    using assms x[of w]
    unfolding create_postcard_def failed_def read_raw_file_def Let_def
    by (auto split: sum.splits option.splits prod.splits if_splits)
qed


lemma suffix_lower:
  assumes "suffix suf p" shows "suffix (lower suf) (lower p)"
  using assms by (auto simp: suffix_def lower_def)

lemma lower_ext: "lower ''.nef'' = ''.nef''" "lower ''.raw'' = ''.raw''"
  by (simp_all add: lower_def lower_char_def)

lemma is_raw_suffix:
  assumes "suffix ''.nef'' p \<or> suffix ''.raw'' p" shows "is_raw p"
  using assms suffix_lower[of "''.nef''" p] suffix_lower[of "''.raw''" p]
  by (auto simp: is_raw_def endswith_def lower_ext)










lemma below_ten: "(k::nat) < 10 \<Longrightarrow> k \<in> {0, 1, 2, 3, 4, 5, 6, 7, 8, 9}"
  by (simp, arith)

lemma of_char_digit_char: "(of_char (digit_char n) :: nat) = 48 + n mod 10"
proof -
  have "n mod 10 < 10" by simp
  then have "n mod 10 \<in> {0, 1, 2, 3, 4, 5, 6, 7, 8, 9}" by (rule below_ten)
  then show ?thesis unfolding digit_char_def by (elim insertE emptyE) simp_all
qed

lemma mod10_le9 [simp]: "n mod 10 \<le> (9::nat)"
  by presburger

lemma digit_in_digit_char [simp]:
  "digit_in (digit_char n) lo hi \<longleftrightarrow> lo \<le> n mod 10 \<and> n mod 10 \<le> hi"
  by (simp add: digit_in_def of_char_digit_char)

lemma digit_val_digit_char [simp]: "digit_val (digit_char n) = n mod 10"
  by (simp add: digit_val_def of_char_digit_char)

lemma digit_char_not_colon: "digit_char n \<noteq> CHR '':''" 
proof
  assume "digit_char n = CHR '':''"
  then have "(of_char (digit_char n) :: nat) = of_char CHR '':''" by simp
  then show False by (simp add: of_char_digit_char)
qed

lemma digit_char_not_space [simp]: "\<not> is_space (digit_char n)"
proof -
  have "n mod 10 < 10" by simp
  then show ?thesis by (auto simp: is_space_def of_char_digit_char)
qed













lemma sample_env_fields:
  "image_open (sample_env t tf) ''photo.jpg'' = Inr (sample_image t)"
  "image_open (sample_env t tf) ''broken.jpg'' = Inl LibraryError"
  "img_getexif (sample_image t) = Inr t"
  "TAGS (sample_env t tf) = sample_tags"
  by (simp_all add: sample_env_def sample_image_def)



subsection \<open>Claims about the metadata\<close>



text \<open>
  C5. \<^verbatim>\<open>extract_exif_data\<close> never raises. When the tag table of the file has no
  DateTimeOriginal tag (also when there is no table at all), the date text it returns
  is \<^verbatim>\<open>None\<close> and the first caption line is exactly \<^verbatim>\<open>2024.01.01\<close>; when it
  has no GPSInfo tag, the location text is \<^verbatim>\<open>None\<close> and the second caption line
  is exactly \<^verbatim>\<open>SHENZHEN\<close>.
\<close>
theorem metadata_fallback:
  assumes "extract_exif_data env p w = (r, w')"
  shows "\<exists>datetime_str location_str. r = Inr (datetime_str, location_str)
    \<and> ((\<forall>img items k v. image_open env p = Inr img \<and> img_getexif img = Inr (Some items)
            \<and> (k, v) \<in> set items \<longrightarrow> TAGS env k \<noteq> Some ''DateTimeOriginal'')
         \<longrightarrow> datetime_str = None \<and> fst (caption_lines datetime_str location_str) = Str ''2024.01.01'')
    \<and> ((\<forall>img items k v. image_open env p = Inr img \<and> img_getexif img = Inr (Some items)
            \<and> (k, v) \<in> set items \<longrightarrow> TAGS env k \<noteq> Some ''GPSInfo'')
         \<longrightarrow> location_str = None \<and> snd (caption_lines datetime_str location_str) = Str ''SHENZHEN'')"
proof (cases "\<exists>img items. image_open env p = Inr img \<and> img_getexif img = Inr (Some items) \<and> items \<noteq> []")
  case True
  then obtain img items where i: "image_open env p = Inr img" "img_getexif img = Inr (Some items)" "items \<noteq> []"
    by blast
  obtain d l where dl: "scan_tags (TAGS env) items (None, None) = (d, l)"
    by (cases "scan_tags (TAGS env) items (None, None)")
  have r: "r = Inr (d, l)" using assms extract_exif_data_table[OF i, of w] dl by simp
  have 1: "d = None" if "\<forall>img items k v. image_open env p = Inr img \<and> img_getexif img = Inr (Some items)
            \<and> (k, v) \<in> set items \<longrightarrow> TAGS env k \<noteq> Some ''DateTimeOriginal''"
  proof -
    from that i have "\<forall>(k', v') \<in> set items. TAGS env k' \<noteq> Some ''DateTimeOriginal''" by blast
    from scan_tags_fst_absent[OF this, of None None] dl show ?thesis by simp
  qed
  have 2: "l = None" if "\<forall>img items k v. image_open env p = Inr img \<and> img_getexif img = Inr (Some items)
            \<and> (k, v) \<in> set items \<longrightarrow> TAGS env k \<noteq> Some ''GPSInfo''"
  proof -
    from that i have "\<forall>(k', v') \<in> set items. TAGS env k' \<noteq> Some ''GPSInfo''" by blast
    from scan_tags_snd_absent[OF this, of None None] dl show ?thesis by simp
  qed
  show ?thesis using r 1 2 by (auto simp: caption_lines_def)
next
  case False
  then have "bind_err (image_open env p) img_getexif \<notin> {Inr (Some items) | items. items \<noteq> []}"
    by (auto simp: bind_err_def split: sum.splits)
  from extract_exif_data_no_table[OF this, of w] assms have "r = Inr (None, None)" by simp
  then show ?thesis by (simp add: caption_lines_def)
qed

theorem metadata_fallback_witness:
  "extract_exif_data (sample_env (Some [(271, Str ''Canon'')]) text_ok) ''photo.jpg'' empty_world
     = (Inr (None, None), empty_world)
   \<and> sample_tags 271 \<noteq> Some ''DateTimeOriginal'' \<and> sample_tags 271 \<noteq> Some ''GPSInfo''
   \<and> caption_lines None None = (Str ''2024.01.01'', Str ''SHENZHEN'')"
proof -
  have e: "extract_exif_data (sample_env (Some [(271, Str ''Canon'')]) text_ok) ''photo.jpg'' empty_world
     = (Inr (None, None), empty_world)"
    by (simp add: extract_exif_data_def sample_env_fields sample_tags_def)
  from metadata_fallback[OF e] show ?thesis
    using e by (simp add: sample_tags_def caption_lines_def)
qed

subsection \<open>Claims about the composition\<close>



text \<open>
  C10. For every path that ends in \<^verbatim>\<open>.nef\<close> or \<^verbatim>\<open>.raw\<close> (in any case of letters)
  \<^verbatim>\<open>read_raw_file\<close> returns \<^verbatim>\<open>None\<close>, after printing the NameError of the
  unbound name \<^verbatim>\<open>rawpy\<close>, and \<^verbatim>\<open>create_postcard\<close> returns \<^verbatim>\<open>False\<close> and
  writes nothing.
\<close>
theorem raw_files_never_processed:
  assumes "suffix ''.nef'' image_path \<or> suffix ''.raw'' image_path \<or> is_raw image_path"
  shows "read_raw_file image_path w = (None, print_msg (RawReadFailed image_path NameError) w)
    \<and> create_postcard env image_path output_path w =
         (False, print_msg (CannotRead image_path) (print_msg (RawReadFailed image_path NameError) w))
    \<and> files (snd (create_postcard env image_path output_path w)) = files w"
proof -
  have r: "is_raw image_path" using assms is_raw_suffix by blast
  show ?thesis by (simp add: create_postcard_raw[OF r] read_raw_file_def)
qed

theorem raw_files_never_processed_witness:
  "suffix ''.nef'' ''IMG_0001.nef''
   \<and> read_raw_file ''IMG_0001.nef'' empty_world
       = (None, print_msg (RawReadFailed ''IMG_0001.nef'' NameError) empty_world)
   \<and> create_postcard (sample_env None text_ok) ''IMG_0001.nef'' ''IMG_0001_postcard.jpg'' empty_world
       = (False, print_msg (CannotRead ''IMG_0001.nef'')
                   (print_msg (RawReadFailed ''IMG_0001.nef'' NameError) empty_world))
   \<and> files (snd (create_postcard (sample_env None text_ok) ''IMG_0001.nef'' ''IMG_0001_postcard.jpg'' empty_world))
       = files empty_world"
proof -
  have s: "suffix ''.nef'' ''IMG_0001.nef''" by (simp add: suffix_def)
  then have "suffix ''.nef'' ''IMG_0001.nef'' \<or> suffix ''.raw'' ''IMG_0001.nef'' \<or> is_raw ''IMG_0001.nef''"
    by simp
  from raw_files_never_processed[OF this, of empty_world "sample_env None text_ok" "''IMG_0001_postcard.jpg''"] s
  show ?thesis by simp
qed




end
